theory Spec2Isabelle
  imports Main "HOL-Library.Sublist"
begin

section \<open>Python values and exceptions\<close>

text \<open>
  Python strings are modelled as \<^typ>\<open>string\<close>, the UTF-8 bytes of the text. The
  characters the pattern and the voice selection inspect are ASCII (braces, the name
  Brian), and no byte of a multi-byte UTF-8 sequence is an ASCII byte, so matching on bytes
  and matching on code points cut a text at the same places. White space is stripped by
  whole encoded characters.
\<close>

datatype exn =
    ValueError string
  | RuntimeError string
  | KeyError string
  | TypeError
  | JSONDecodeError
  | APIError
  | SynthesisError
  | FileNotFoundError string
  | CouldntDecodeError
  | EncodeError
  | UploadError

text \<open>
  What \<open>json.loads\<close> returns: \<open>None\<close>, booleans, numbers, strings, lists and dicts
  (a dict as an association list in insertion order). \<open>JNull\<close> is Python's \<open>None\<close>.
\<close>

datatype json =
    JNull
  | JBool bool
  | JInt int
  | JFloat int int
  | JString string
  | JArray "json list"
  | JObject "(string \<times> json) list"

text \<open>\<open>v[key]\<close> for a string key: only a dict accepts it, a missing key is a KeyError.\<close>

fun py_getitem :: "json \<Rightarrow> string \<Rightarrow> exn + json" where
  "py_getitem (JObject kvs) k = (case map_of kvs k of None \<Rightarrow> Inl (KeyError k) | Some v \<Rightarrow> Inr v)"
| "py_getitem _ k = Inl TypeError"

text \<open>
  Iterating a value: a list gives its elements, a dict its keys, a string its characters;
  nothing else is iterable.
\<close>

fun py_iter :: "json \<Rightarrow> exn + json list" where
  "py_iter (JArray xs) = Inr xs"
| "py_iter (JObject kvs) = Inr (map (\<lambda>kv. JString (fst kv)) kvs)"
| "py_iter (JString s) = Inr (map (\<lambda>c. JString [c]) s)"
| "py_iter _ = Inl TypeError"

section \<open>The regular expression of \<open>extract_conversation\<close>\<close>

text \<open>
  The fragment of Python's \<open>re\<close> syntax the pattern uses: a literal character, a negated
  character class, concatenation, alternation and the greedy star.
\<close>

datatype rx =
    Lit char
  | NoneOf "char list"
  | Seq rx rx
  | Alt rx rx
  | Star rx

text \<open>
  \<open>rx_match r s\<close> lists, in the order in which a backtracking matcher tries them, the
  remainders of \<open>s\<close> after each way of matching \<open>r\<close> at the start of \<open>s\<close>. An alternation
  tries its left branch first; a greedy star tries one more iteration before it tries to
  stop, and gives up an iteration that consumed nothing.
\<close>

fun rx_match :: "rx \<Rightarrow> string \<Rightarrow> string list" where
  "rx_match (Lit a) s = (case s of [] \<Rightarrow> [] | c # cs \<Rightarrow> if c = a then [cs] else [])"
| "rx_match (NoneOf bad) s = (case s of [] \<Rightarrow> [] | c # cs \<Rightarrow> if c \<in> set bad then [] else [cs])"
| "rx_match (Seq r1 r2) s = concat (map (rx_match r2) (rx_match r1 s))"
| "rx_match (Alt r1 r2) s = rx_match r1 s @ rx_match r2 s"
| "rx_match (Star r) s =
     concat (map (\<lambda>s'. if length s' < length s then rx_match (Star r) s' else []) (rx_match r s))
     @ [s]"

text \<open>
  \<open>re.search\<close>: the leftmost position at which the pattern matches, and there the first
  match in backtracking order. The result is \<open>match.group()\<close>, the matched text.
\<close>

fun re_search :: "rx \<Rightarrow> string \<Rightarrow> string option" where
  "re_search r [] = (case rx_match r [] of rest # _ \<Rightarrow> Some [] | [] \<Rightarrow> None)"
| "re_search r (c # cs) =
     (case rx_match r (c # cs) of
        rest # _ \<Rightarrow> Some (take (length (c # cs) - length rest) (c # cs))
      | [] \<Rightarrow> re_search r cs)"

text \<open>The pattern \<^verbatim>\<open>\{(?:[^{}]|(?:\{[^{}]*\}))*\}\<close>.\<close>

definition no_brace :: rx where
  "no_brace = NoneOf ''{}''"

definition inner_object :: rx where
  "inner_object = Seq (Lit CHR ''{'') (Seq (Star no_brace) (Lit CHR ''}''))"

definition pattern :: rx where
  "pattern = Seq (Lit CHR ''{'') (Seq (Star (Alt no_brace inner_object)) (Lit CHR ''}''))"

section \<open>Rendering text\<close>

definition NL :: string where
  "NL = [CHR 0x0A]"

text \<open>\<open>str(n)\<close> and \<open>str(i)\<close>: the decimal digits, with a minus sign for a negative integer.\<close>

fun str_nat :: "nat \<Rightarrow> string" where
  "str_nat n =
     (if n < 10 then [''0123456789'' ! n] else str_nat (n div 10) @ [''0123456789'' ! (n mod 10)])"

declare str_nat.simps [simp del]

definition str_int :: "int \<Rightarrow> string" where
  "str_int i = (if i < 0 then ''-'' @ str_nat (nat (- i)) else str_nat (nat i))"

text \<open>\<open>sep.join(parts)\<close>.\<close>

fun str_join :: "string \<Rightarrow> string list \<Rightarrow> string" where
  "str_join sep [] = []"
| "str_join sep [p] = p"
| "str_join sep (p # q # ps) = p @ sep @ str_join sep (q # ps)"

text \<open>
  \<open>s.strip()\<close> removes from both ends every character for which \<open>str.isspace\<close> holds.
  These are 29 characters: the ASCII controls 9 to 13 and 28 to 31, the space, and U+0085,
  U+00A0, U+1680, U+2000 to U+200A, U+2028, U+2029, U+202F, U+205F and U+3000; the list
  gives their UTF-8 encodings. No encoding is a prefix or a suffix of another, and in
  well-formed UTF-8 an encoding at either end of a text is that character.
\<close>

definition unicode_spaces :: "string list" where
  "unicode_spaces =
     [[CHR 0x09], [CHR 0x0A], [CHR 0x0B], [CHR 0x0C], [CHR 0x0D],
      [CHR 0x1C], [CHR 0x1D], [CHR 0x1E], [CHR 0x1F], [CHR 0x20],
      [CHR 0xC2, CHR 0x85], [CHR 0xC2, CHR 0xA0],
      [CHR 0xE1, CHR 0x9A, CHR 0x80],
      [CHR 0xE2, CHR 0x80, CHR 0x80], [CHR 0xE2, CHR 0x80, CHR 0x81],
      [CHR 0xE2, CHR 0x80, CHR 0x82], [CHR 0xE2, CHR 0x80, CHR 0x83],
      [CHR 0xE2, CHR 0x80, CHR 0x84], [CHR 0xE2, CHR 0x80, CHR 0x85],
      [CHR 0xE2, CHR 0x80, CHR 0x86], [CHR 0xE2, CHR 0x80, CHR 0x87],
      [CHR 0xE2, CHR 0x80, CHR 0x88], [CHR 0xE2, CHR 0x80, CHR 0x89],
      [CHR 0xE2, CHR 0x80, CHR 0x8A],
      [CHR 0xE2, CHR 0x80, CHR 0xA8], [CHR 0xE2, CHR 0x80, CHR 0xA9],
      [CHR 0xE2, CHR 0x80, CHR 0xAF], [CHR 0xE2, CHR 0x81, CHR 0x9F],
      [CHR 0xE3, CHR 0x80, CHR 0x80]]"

text \<open>The length of the white-space encoding at the start of \<open>s\<close>, 0 if there is none.\<close>

definition space_at :: "string list \<Rightarrow> string \<Rightarrow> nat" where
  "space_at spaces s =
     (case find (\<lambda>sp. prefix sp s) spaces of None \<Rightarrow> 0 | Some sp \<Rightarrow> length sp)"

function strip_front :: "string list \<Rightarrow> string \<Rightarrow> string" where
  "strip_front spaces s =
     (if space_at spaces s = 0 then s else strip_front spaces (drop (space_at spaces s) s))"
  by pat_completeness auto
termination
proof (relation "measure (\<lambda>(spaces, s). length s)")
  show "wf (measure (\<lambda>(spaces, s). length s))" by simp
next
  fix spaces :: "string list" and s :: string
  assume found: "space_at spaces s \<noteq> 0"
  then obtain sp where "find (\<lambda>sp. prefix sp s) spaces = Some sp" and "length sp \<noteq> 0"
    by (auto simp: space_at_def split: option.splits)
  then have "prefix sp s" and "sp \<noteq> []"
    by (auto simp: find_Some_iff)
  then have "s \<noteq> []" by auto
  with found
  show "((spaces, drop (space_at spaces s) s), (spaces, s)) \<in> measure (\<lambda>(spaces, s). length s)"
    by simp
qed

declare strip_front.simps [simp del]

text \<open>Stripping the end is stripping the start of the reversed text of the reversed encodings.\<close>

definition py_strip :: "string \<Rightarrow> string" where
  "py_strip s = rev (strip_front (map rev unicode_spaces) (rev (strip_front unicode_spaces s)))"

section \<open>Prompt and show notes\<close>

text \<open>
  One entry of the module-level list \<open>items\<close>: the text of the \<open>title\<close>, \<open>link\<close> and
  \<open>description\<close> elements of a feed item. The record covers items whose three elements
  have text; an element without text would give \<open>None\<close>.
\<close>

record paper_item =
  title :: string
  link :: string
  description :: string

definition paper_summary :: "paper_item \<Rightarrow> string" where
  "paper_summary item = ''- '' @ title item @ '' ('' @ link item @ ''): '' @ description item"

definition template :: string where
  "template =
     NL @ ''    {'' @ NL
     @ ''        \"conversation\": ['' @ NL
     @ ''            {\"speaker\": \"Brian\", \"text\": \"\"},'' @ NL
     @ ''            {\"speaker\": \"Jenny\", \"text\": \"\"}'' @ NL
     @ ''        ]'' @ NL
     @ ''    }'' @ NL
     @ ''    ''"

text \<open>
  The studio microphone emoji (U+1F399 U+FE0F) and the typographic apostrophe (U+2019) of
  the prompt, in UTF-8.
\<close>

definition microphone :: string where
  "microphone = [CHR 0xF0, CHR 0x9F, CHR 0x8E, CHR 0x99, CHR 0xEF, CHR 0xB8, CHR 0x8F]"

definition apostrophe :: string where
  "apostrophe = [CHR 0xE2, CHR 0x80, CHR 0x99]"

text \<open>\<open>build_prompt(text, items)\<close>, the same in both applications. The body never reads \<open>text\<close>.\<close>

definition build_prompt :: "string \<Rightarrow> paper_item list \<Rightarrow> string" where
  "build_prompt text items =
     (let paper_summaries = str_join NL (map paper_summary items) in
      microphone @ '' Welcome to Daily Papers! Today, we're diving into the latest AI research in an engaging and ''
      @ ''informative discussion. The goal is to make it a **medium-length podcast** that'' @ apostrophe
      @ ''s **engaging, natural, and insightful** while covering ''
      @ ''the key points of each paper.'' @ NL @ NL
      @ ''Here are today's research papers:'' @ NL @ paper_summaries @ NL @ NL
      @ ''Convert this into a **conversational podcast-style discussion** between two experts, Brian and Jenny. ''
      @ ''Ensure the conversation flows naturally, using a mix of **insightful analysis, casual phrasing, and occasional filler words** like 'uhm' and 'you know' ''
      @ ''to keep it realistic. The tone should be engaging yet professional, making it interesting for the audience.'' @ NL @ NL
      @ ''Each research paper should be **discussed meaningfully**, but avoid dragging the conversation too long. ''
      @ ''Focus on key insights and practical takeaways. Keep the pacing dynamic and interactive.'' @ NL @ NL
      @ ''Please return the conversation in **this exact JSON format**:'' @ NL @ template)"

text \<open>The fixed text of the prompt before and after the paper summaries.\<close>

definition prompt_head :: string where
  "prompt_head =
     microphone @ '' Welcome to Daily Papers! Today, we're diving into the latest AI research in an engaging and ''
     @ ''informative discussion. The goal is to make it a **medium-length podcast** that'' @ apostrophe
     @ ''s **engaging, natural, and insightful** while covering ''
     @ ''the key points of each paper.'' @ NL @ NL
     @ ''Here are today's research papers:'' @ NL"

definition prompt_tail :: string where
  "prompt_tail =
     NL @ NL
     @ ''Convert this into a **conversational podcast-style discussion** between two experts, Brian and Jenny. ''
     @ ''Ensure the conversation flows naturally, using a mix of **insightful analysis, casual phrasing, and occasional filler words** like 'uhm' and 'you know' ''
     @ ''to keep it realistic. The tone should be engaging yet professional, making it interesting for the audience.'' @ NL @ NL
     @ ''Each research paper should be **discussed meaningfully**, but avoid dragging the conversation too long. ''
     @ ''Focus on key insights and practical takeaways. Keep the pacing dynamic and interactive.'' @ NL @ NL
     @ ''Please return the conversation in **this exact JSON format**:'' @ NL"

text \<open>\<open>generate_show_notes(items)\<close>: the loop over \<open>enumerate(items)\<close>, \<open>i\<close> counting from 0.\<close>

definition show_note :: "nat \<Rightarrow> paper_item \<Rightarrow> string" where
  "show_note i item =
     str_nat (i + 1) @ ''. **'' @ title item @ ''**'' @ NL
     @ ''   - '' @ description item @ NL
     @ ''   - [Read More]('' @ link item @ '')'' @ NL @ NL"

fun show_notes_loop :: "nat \<Rightarrow> paper_item list \<Rightarrow> string \<Rightarrow> string" where
  "show_notes_loop i [] notes = notes"
| "show_notes_loop i (item # rest) notes = show_notes_loop (Suc i) rest (notes @ show_note i item)"

definition generate_show_notes :: "paper_item list \<Rightarrow> string" where
  "generate_show_notes items =
     show_notes_loop 0 items (''**Show Notes**'' @ NL @ NL @ ''In today's episode:'' @ NL @ NL)"

section \<open>The world outside the program\<close>

text \<open>
  A decoded audio segment is its sequence of frames; \<open>AudioSegment.empty()\<close> is the empty
  sequence and \<open>+=\<close> appends.
\<close>

type_synonym audio = "nat list"

text \<open>
  What a run does besides writing files: completion requests and pauses, in order. What
  the program prints is left out.
\<close>

datatype event =
    Completion int string
  | Sleep nat

text \<open>
  The state a run reads and changes: the files of the working directory (name to content),
  the log of requests and pauses, and the objects of the R2 bucket.
\<close>

record world =
  files :: "string \<rightharpoonup> string"
  trace :: "event list"
  bucket :: "string \<rightharpoonup> string"

text \<open>
  Everything the program takes from outside, as parameters of the model: the module-level
  \<open>daily_feed\<close> and \<open>items\<close>; the answer of the completion endpoint to the request of a
  given attempt (the message content, or the exception the call or the reading of the
  content raises); \<open>json.loads\<close> and \<open>json.dumps(_, indent=2)\<close>; the speech service, per task
  (the bytes \<open>save\<close> writes, or its exception) and, when the fan-out fails, what each task
  has left on disk by then; the audio decoder and the MP3 encoder; the date string
  \<open>datetime.today().strftime("%Y-%m-%d")\<close> at the gate and at the end of the run; the
  upload call.
\<close>

record env =
  daily_feed :: string
  items :: "paper_item list"
  client :: "int \<Rightarrow> string \<Rightarrow> exn + string"
  json_loads :: "string \<Rightarrow> exn + json"
  json_dumps :: "json \<Rightarrow> string"
  tts_save :: "nat \<Rightarrow> json \<Rightarrow> string \<Rightarrow> exn + string"
  tts_leftover :: "nat \<Rightarrow> string option"
  from_file :: "string \<Rightarrow> exn + audio"
  export :: "audio \<Rightarrow> exn + string"
  today_at_gate :: string
  today_at_end :: string
  upload_file :: "string \<Rightarrow> exn option"

definition PODCAST_FILE :: string where
  "PODCAST_FILE = ''merged_audio.mp3''"

definition SHOW_NOTES_FILE :: string where
  "SHOW_NOTES_FILE = ''show_notes.txt''"

definition CONVERSATION_FILE :: string where
  "CONVERSATION_FILE = ''conversation.json''"

definition LAST_RUN_FILE :: string where
  "LAST_RUN_FILE = ''last_run.txt''"




definition save_to_file :: "string \<Rightarrow> string \<Rightarrow> world \<Rightarrow> world" where
  "save_to_file content filename w = w\<lparr>files := (files w)(filename \<mapsto> content)\<rparr>"

section \<open>Conversation generator\<close>

text \<open>
  The body of the \<open>try\<close> in \<open>app.py\<close>: one completion request, the search for the pattern
  in the answer, and \<open>json.loads\<close> of the matched text. The value returned is what
  \<open>json.loads\<close> gives.
\<close>

definition attempt_body :: "env \<Rightarrow> string \<Rightarrow> paper_item list \<Rightarrow> int \<Rightarrow> world \<Rightarrow> (exn + json) \<times> world" where
  "attempt_body e text its attempt w =
     (let prompt = build_prompt text its;
          w' = w\<lparr>trace := trace w @ [Completion attempt prompt]\<rparr>
      in case client e attempt prompt of
           Inl x \<Rightarrow> (Inl x, w')
         | Inr content \<Rightarrow>
             (case re_search pattern content of
                Some json_match \<Rightarrow> (json_loads e json_match, w')
              | None \<Rightarrow> (Inl (ValueError ''No valid JSON found in response''), w')))"

text \<open>
  The \<open>for attempt in range(1, max_retries + 1)\<close> loop of \<open>app.py\<close>, over the attempts
  still to make. \<open>except Exception\<close> catches whatever the body raises; a loop that ends
  without returning makes the function return \<open>None\<close>.
\<close>

fun attempts_loop :: "env \<Rightarrow> string \<Rightarrow> paper_item list \<Rightarrow> int \<Rightarrow> int list \<Rightarrow> world \<Rightarrow> (exn + json) \<times> world" where
  "attempts_loop e text its max_retries [] w = (Inr JNull, w)"
| "attempts_loop e text its max_retries (attempt # rest) w =
     (case attempt_body e text its attempt w of
        (Inr conversation, w') \<Rightarrow> (Inr conversation, w')
      | (Inl err, w') \<Rightarrow>
          if attempt < max_retries
          then attempts_loop e text its max_retries rest (w'\<lparr>trace := trace w' @ [Sleep 2]\<rparr>)
          else (Inl (RuntimeError (''Failed after '' @ str_int max_retries @ '' attempts.'')), w'))"

definition extract_conversation :: "env \<Rightarrow> string \<Rightarrow> paper_item list \<Rightarrow> int \<Rightarrow> world \<Rightarrow> (exn + json) \<times> world" where
  "extract_conversation e text its max_retries w =
     attempts_loop e text its max_retries [1..max_retries] w"

text \<open>\<open>extract_conversation\<close> of \<open>cloudflare_app.py\<close>: a single request, no \<open>try\<close>.\<close>

definition cf_extract_conversation :: "env \<Rightarrow> string \<Rightarrow> paper_item list \<Rightarrow> world \<Rightarrow> (exn + json) \<times> world" where
  "cf_extract_conversation e text its w =
     (let prompt = build_prompt text its;
          w' = w\<lparr>trace := trace w @ [Completion 1 prompt]\<rparr>
      in case client e 1 prompt of
           Inl x \<Rightarrow> (Inl x, w')
         | Inr content \<Rightarrow>
             (case re_search pattern content of
                Some json_match \<Rightarrow> (json_loads e json_match, w')
              | None \<Rightarrow> (Inl (ValueError ''No valid JSON found in response''), w')))"

section \<open>Audio synthesizer\<close>

text \<open>A synthesis task: the text, the voice and the file \<open>save\<close> writes.\<close>

type_synonym task = "json \<times> string \<times> string"

definition select_voice :: "json \<Rightarrow> string" where
  "select_voice speaker =
     (if speaker = JString ''Brian'' then ''en-GB-RyanNeural'' else ''en-US-AvaMultilingualNeural'')"

text \<open>
  The loop over \<open>enumerate(conversation["conversation"])\<close>, which appends to \<open>tasks\<close> and to
  \<open>audio_files\<close> in step.
\<close>

fun audio_loop :: "nat \<Rightarrow> json list \<Rightarrow> task list \<Rightarrow> string list \<Rightarrow> exn + (task list \<times> string list)" where
  "audio_loop i [] tasks audio_files = Inr (tasks, audio_files)"
| "audio_loop i (item # rest) tasks audio_files =
     (case py_getitem item ''text'' of
        Inl x \<Rightarrow> Inl x
      | Inr text \<Rightarrow>
          (let output_file = ''audio_'' @ str_nat i @ ''.mp3'' in
           case py_getitem item ''speaker'' of
             Inl x \<Rightarrow> Inl x
           | Inr speaker \<Rightarrow>
               audio_loop (Suc i) rest
                 (tasks @ [(text, select_voice speaker, output_file)])
                 (audio_files @ [output_file])))"

text \<open>
  \<open>asyncio.gather(*tasks)\<close>. When every task succeeds, every output file holds what its
  task wrote. When some task fails, the exception reaches the caller (the model reports the
  failing task of lowest index) and the clip files are left as the tasks had them at that
  moment, which \<open>tts_leftover\<close> says.
\<close>

fun save_clips :: "env \<Rightarrow> nat \<Rightarrow> task list \<Rightarrow> (string \<rightharpoonup> string) \<Rightarrow> exn + (string \<rightharpoonup> string)" where
  "save_clips e i [] fs = Inr fs"
| "save_clips e i ((text, voice, output_file) # ts) fs =
     (case tts_save e i text voice of
        Inl x \<Rightarrow> Inl x
      | Inr bytes \<Rightarrow> save_clips e (Suc i) ts (fs(output_file \<mapsto> bytes)))"

fun leftover_clips :: "env \<Rightarrow> nat \<Rightarrow> task list \<Rightarrow> (string \<rightharpoonup> string) \<Rightarrow> (string \<rightharpoonup> string)" where
  "leftover_clips e i [] fs = fs"
| "leftover_clips e i ((text, voice, output_file) # ts) fs =
     leftover_clips e (Suc i) ts
       (case tts_leftover e i of None \<Rightarrow> fs | Some bytes \<Rightarrow> fs(output_file \<mapsto> bytes))"

definition gather :: "env \<Rightarrow> task list \<Rightarrow> world \<Rightarrow> (exn + unit) \<times> world" where
  "gather e tasks w =
     (case save_clips e 0 tasks (files w) of
        Inr fs \<Rightarrow> (Inr (), w\<lparr>files := fs\<rparr>)
      | Inl x \<Rightarrow> (Inl x, w\<lparr>files := leftover_clips e 0 tasks (files w)\<rparr>))"

definition generate_audio_parallel :: "env \<Rightarrow> json \<Rightarrow> world \<Rightarrow> (exn + string list) \<times> world" where
  "generate_audio_parallel e conversation w =
     (case py_getitem conversation ''conversation'' of
        Inl x \<Rightarrow> (Inl x, w)
      | Inr turns \<Rightarrow>
          (case py_iter turns of
             Inl x \<Rightarrow> (Inl x, w)
           | Inr lines \<Rightarrow>
               (case audio_loop 0 lines [] [] of
                  Inl x \<Rightarrow> (Inl x, w)
                | Inr (tasks, audio_files) \<Rightarrow>
                    (case gather e tasks w of
                       (Inl x, w') \<Rightarrow> (Inl x, w')
                     | (Inr u, w') \<Rightarrow> (Inr audio_files, w')))))"

section \<open>Audio merger\<close>

fun merge_loop :: "env \<Rightarrow> (string \<rightharpoonup> string) \<Rightarrow> string list \<Rightarrow> audio \<Rightarrow> exn + audio" where
  "merge_loop e fs [] combined = Inr combined"
| "merge_loop e fs (file # rest) combined =
     (case fs file of
        None \<Rightarrow> Inl (FileNotFoundError file)
      | Some bytes \<Rightarrow>
          (case from_file e bytes of
             Inl x \<Rightarrow> Inl x
           | Inr audio \<Rightarrow> merge_loop e fs rest (combined @ audio)))"

text \<open>
  \<open>merge_audio_files(audio_files, output_file)\<close>; \<open>cloudflare_app.py\<close> fixes the output file
  to its own \<open>PODCAST_FILE\<close>. What a failed encoder leaves in the output file is outside the
  model: the world is returned as it was.
\<close>

definition merge_audio_files :: "env \<Rightarrow> string list \<Rightarrow> string \<Rightarrow> world \<Rightarrow> (exn + unit) \<times> world" where
  "merge_audio_files e audio_files output_file w =
     (case merge_loop e (files w) audio_files [] of
        Inl x \<Rightarrow> (Inl x, w)
      | Inr combined \<Rightarrow>
          (case export e combined of
             Inl x \<Rightarrow> (Inl x, w)
           | Inr bytes \<Rightarrow> (Inr (), save_to_file bytes output_file w)))"

section \<open>Run gate and persistence\<close>

text \<open>The loop \<open>for file in audio_files: os.remove(file)\<close>.\<close>

fun remove_files :: "string list \<Rightarrow> world \<Rightarrow> (exn + unit) \<times> world" where
  "remove_files [] w = (Inr (), w)"
| "remove_files (file # rest) w =
     (case files w file of
        None \<Rightarrow> (Inl (FileNotFoundError file), w)
      | Some bytes \<Rightarrow> remove_files rest (w\<lparr>files := (files w)(file := None)\<rparr>))"

text \<open>
  The gate at the head of \<open>generate_podcast\<close> and of \<open>run_podcast_generation\<close>: the marker
  file exists and its stripped content is today's date string. The marker is read as UTF-8
  text. Reading in text mode also turns a carriage return into a newline; both are white
  space, and the date string, an output of \<open>strftime\<close>, has neither.
\<close>

definition already_generated :: "env \<Rightarrow> world \<Rightarrow> bool" where
  "already_generated e w =
     (case files w LAST_RUN_FILE of
        None \<Rightarrow> False
      | Some content \<Rightarrow> py_strip content = today_at_gate e)"

text \<open>The statements of \<open>generate_podcast\<close> after the gate (\<open>app.py\<close>).\<close>

definition generation_cycle :: "env \<Rightarrow> world \<Rightarrow> (exn + unit) \<times> world" where
  "generation_cycle e w =
     (case extract_conversation e (daily_feed e) (items e) 3 w of
        (Inl x, w1) \<Rightarrow> (Inl x, w1)
      | (Inr conversation, w1) \<Rightarrow>
          (let w2 = save_to_file (json_dumps e conversation) CONVERSATION_FILE w1;
               w3 = save_to_file (generate_show_notes (items e)) SHOW_NOTES_FILE w2
           in case generate_audio_parallel e conversation w3 of
                (Inl x, w4) \<Rightarrow> (Inl x, w4)
              | (Inr audio_files, w4) \<Rightarrow>
                  (case merge_audio_files e audio_files ''merged_audio.mp3'' w4 of
                     (Inl x, w5) \<Rightarrow> (Inl x, w5)
                   | (Inr u, w5) \<Rightarrow>
                       (case remove_files audio_files w5 of
                          (Inl x, w6) \<Rightarrow> (Inl x, w6)
                        | (Inr u, w6) \<Rightarrow> (Inr (), save_to_file (today_at_end e) LAST_RUN_FILE w6)))))"

definition generate_podcast :: "env \<Rightarrow> world \<Rightarrow> (exn + unit) \<times> world" where
  "generate_podcast e w =
     (if already_generated e w then (Inr (), w) else generation_cycle e w)"

text \<open>
  The handler of the button ``Force Generate Podcast'': it calls \<open>generate_podcast()\<close>, the
  same function with the same gate, and then asks for a rerun of the page.
\<close>

definition force_generate :: "env \<Rightarrow> world \<Rightarrow> (exn + unit) \<times> world" where
  "force_generate e w = generate_podcast e w"

text \<open>
  One run of the page script of \<open>app.py\<close>: the call of \<open>generate_podcast\<close> at module level
  and, when the button was clicked, the handler. The two calls see the outside world at
  different moments, hence two environments.
\<close>

definition app_script :: "env \<Rightarrow> env \<Rightarrow> bool \<Rightarrow> world \<Rightarrow> (exn + unit) \<times> world" where
  "app_script e_start e_click clicked w =
     (case generate_podcast e_start w of
        (Inl x, w') \<Rightarrow> (Inl x, w')
      | (Inr u, w') \<Rightarrow> if clicked then force_generate e_click w' else (Inr (), w'))"




section \<open>Vocabulary of the properties\<close>

text \<open>
  The text left after the two tails of the pattern: \<open>inner_rest\<close> after \<^verbatim>\<open>[^{}]*\}\<close>, inside
  a nested pair of braces, and \<open>object_rest\<close> after \<^verbatim>\<open>(?:[^{}]|(?:\{[^{}]*\}))*\}\<close>,
  inside the outer pair.
\<close>

definition inner_rest :: "string \<Rightarrow> string list" where
  "inner_rest s = rx_match (Seq (Star no_brace) (Lit CHR ''}'')) s"

definition object_rest :: "string \<Rightarrow> string list" where
  "object_rest s = rx_match (Seq (Star (Alt no_brace inner_object)) (Lit CHR ''}'')) s"

definition is_brace :: "char \<Rightarrow> bool" where
  "is_brace c \<longleftrightarrow> c = CHR ''{'' \<or> c = CHR ''}''"

definition brace_free :: "string \<Rightarrow> bool" where
  "brace_free s = (\<forall>c \<in> set s. \<not> is_brace c)"

text \<open>
  A text that is one brace-balanced object with at most one level of nesting, read by
  counting braces and not through the pattern: it starts with an opening brace, every
  further opening brace is at depth one and is closed before the next one opens, and the
  brace that closes the first one is the last character. \<open>closes d s\<close> reads \<open>s\<close> at
  depth \<open>d\<close>.
\<close>

fun closes :: "nat \<Rightarrow> string \<Rightarrow> bool" where
  "closes d [] = False"
| "closes d (c # cs) =
     (if c = CHR ''{'' then d < 2 \<and> closes (Suc d) cs
      else if c = CHR ''}'' then (if d \<le> 1 then cs = [] else closes (d - 1) cs)
      else closes d cs)"

definition one_level_object :: "string \<Rightarrow> bool" where
  "one_level_object s = (case s of [] \<Rightarrow> False | c # cs \<Rightarrow> c = CHR ''{'' \<and> closes 1 cs)"

text \<open>An attempt fails: the request raises, the answer has no match, or the match does not parse.\<close>

definition attempt_fails :: "env \<Rightarrow> string \<Rightarrow> paper_item list \<Rightarrow> int \<Rightarrow> bool" where
  "attempt_fails e text its attempt =
     (case client e attempt (build_prompt text its) of
        Inl x \<Rightarrow> True
      | Inr content \<Rightarrow>
          (case re_search pattern content of
             None \<Rightarrow> True
           | Some json_match \<Rightarrow> isl (json_loads e json_match)))"

text \<open>
  The log of a run of attempts that all fail: one completion request per attempt, a pause
  of two seconds between two consecutive attempts and none after the last.
\<close>

fun retry_trace :: "string \<Rightarrow> int list \<Rightarrow> event list" where
  "retry_trace prompt [] = []"
| "retry_trace prompt [k] = [Completion k prompt]"
| "retry_trace prompt (k # k' # ks) = Completion k prompt # Sleep 2 # retry_trace prompt (k' # ks)"

text \<open>The name of the clip of line \<open>i\<close>, as the synthesizer builds it.\<close>

definition clip_name :: "nat \<Rightarrow> string" where
  "clip_name i = ''audio_'' @ str_nat i @ ''.mp3''"

text \<open>A dialogue line: a value with a \<open>speaker\<close> and a \<open>text\<close> entry.\<close>

definition dialogue_line :: "json \<Rightarrow> json \<Rightarrow> json \<Rightarrow> bool" where
  "dialogue_line item speaker text \<longleftrightarrow>
     py_getitem item ''speaker'' = Inr speaker \<and> py_getitem item ''text'' = Inr text"

text \<open>A readable clip: the file exists and the decoder accepts its content.\<close>

definition readable_clip :: "env \<Rightarrow> (string \<rightharpoonup> string) \<Rightarrow> string \<Rightarrow> audio \<Rightarrow> bool" where
  "readable_clip e fs file clip =
     (case fs file of None \<Rightarrow> False | Some bytes \<Rightarrow> from_file e bytes = Inr clip)"

text \<open>
  The episode a conversation determines, said without files: every line is spoken with
  the voice of its speaker and the result is decoded to a clip, the clips are joined in
  the order of the lines, and the joined track is encoded.
\<close>

definition spoken_clip :: "env \<Rightarrow> nat \<Rightarrow> json \<Rightarrow> audio option" where
  "spoken_clip e i item =
     (case py_getitem item ''text'' of
        Inl x \<Rightarrow> None
      | Inr text \<Rightarrow>
          (case py_getitem item ''speaker'' of
             Inl x \<Rightarrow> None
           | Inr speaker \<Rightarrow>
               (case tts_save e i text (select_voice speaker) of
                  Inl x \<Rightarrow> None
                | Inr bytes \<Rightarrow>
                    (case from_file e bytes of Inl x \<Rightarrow> None | Inr clip \<Rightarrow> Some clip))))"

definition expected_episode :: "env \<Rightarrow> json \<Rightarrow> string option" where
  "expected_episode e conversation =
     (case py_getitem conversation ''conversation'' of
        Inl x \<Rightarrow> None
      | Inr turns \<Rightarrow>
          (case py_iter turns of
             Inl x \<Rightarrow> None
           | Inr lines \<Rightarrow>
               (case those (map (\<lambda>(i, item). spoken_clip e i item) (enumerate 0 lines)) of
                  None \<Rightarrow> None
                | Some clips \<Rightarrow>
                    (case export e (concat clips) of
                       Inl x \<Rightarrow> None
                     | Inr episode \<Rightarrow> Some episode))))"

text \<open>
  The part the two applications share after the conversation is extracted: the two text
  artifacts, the clips, the merged episode, the removal of the clips and the marker.
  \<open>generation_cycle\<close> and \<open>cf_generation_cycle\<close> are instances of it (lemmas
  \<open>generation_cycle_local\<close> and \<open>cf_generation_cycle_local\<close>).
\<close>

definition local_run :: "env \<Rightarrow> (exn + json) \<times> world \<Rightarrow> string \<Rightarrow> string \<Rightarrow> string \<Rightarrow> (exn + unit) \<times> world" where
  "local_run e extracted conversation_file show_notes_file podcast_file =
     (case extracted of
        (Inl x, w1) \<Rightarrow> (Inl x, w1)
      | (Inr conversation, w1) \<Rightarrow>
          (let w2 = save_to_file (json_dumps e conversation) conversation_file w1;
               w3 = save_to_file (generate_show_notes (items e)) show_notes_file w2
           in case generate_audio_parallel e conversation w3 of
                (Inl x, w4) \<Rightarrow> (Inl x, w4)
              | (Inr audio_files, w4) \<Rightarrow>
                  (case merge_audio_files e audio_files podcast_file w4 of
                     (Inl x, w5) \<Rightarrow> (Inl x, w5)
                   | (Inr u, w5) \<Rightarrow>
                       (case remove_files audio_files w5 of
                          (Inl x, w6) \<Rightarrow> (Inl x, w6)
                        | (Inr u, w6) \<Rightarrow> (Inr (), save_to_file (today_at_end e) LAST_RUN_FILE w6)))))"

text \<open>A name that starts like a clip name.\<close>

definition clip_like :: "string \<Rightarrow> bool" where
  "clip_like name = (take 6 name = ''audio_'')"

section \<open>A sample run\<close>

text \<open>
  A small environment on which the definitions can be evaluated: two papers, an endpoint
  that answers every request with a two-line conversation wrapped in prose, a decoder for
  exactly that answer, a speech service that returns the voice name as the clip, a
  decoder that gives a clip one frame and an encoder that writes one character per frame.
\<close>

definition sample_items :: "paper_item list" where
  "sample_items =
     [\<lparr>title = ''Sparse Attention'', link = ''http://p/1'', description = ''Fewer keys.''\<rparr>,
      \<lparr>title = ''Tiny Diffusion'', link = ''http://p/2'', description = ''Small models.''\<rparr>]"

definition sample_object :: string where
  "sample_object =
     ''{\"conversation\": [{\"speaker\": \"Brian\", \"text\": \"Hi\"}, {\"speaker\": \"Jenny\", \"text\": \"Hello\"}]}''"

definition sample_answer :: string where
  "sample_answer = ''Sure! '' @ sample_object @ '' Enjoy.''"

definition sample_conversation :: json where
  "sample_conversation =
     JObject [(''conversation'',
       JArray [JObject [(''speaker'', JString ''Brian''), (''text'', JString ''Hi'')],
               JObject [(''speaker'', JString ''Jenny''), (''text'', JString ''Hello'')]])]"

definition sample_loads :: "string \<Rightarrow> exn + json" where
  "sample_loads s = (if s = sample_object then Inr sample_conversation else Inl JSONDecodeError)"

definition sample_env :: env where
  "sample_env =
     \<lparr>daily_feed = ''Title: Sparse Attention'',
      items = sample_items,
      client = (\<lambda>attempt prompt. Inr sample_answer),
      json_loads = sample_loads,
      json_dumps = (\<lambda>v. sample_object),
      tts_save = (\<lambda>i text voice. Inr voice),
      tts_leftover = (\<lambda>i. None),
      from_file = (\<lambda>bytes. Inr [length bytes]),
      export = (\<lambda>frames. Inr (replicate (length frames) CHR ''#'')),
      today_at_gate = ''2026-11-03'',
      today_at_end = ''2026-11-03'',
      upload_file = (\<lambda>filename. None)\<rparr>"

definition empty_world :: world where
  "empty_world = \<lparr>files = Map.empty, trace = [], bucket = Map.empty\<rparr>"

text \<open>An endpoint that never answers with JSON.\<close>

definition silent_env :: env where
  "silent_env = sample_env\<lparr>client := (\<lambda>attempt prompt. Inr ''I cannot help with that.'')\<rparr>"

text \<open>An endpoint whose first answer has no JSON and whose later answers are the sample answer.\<close>

definition flaky_env :: env where
  "flaky_env =
     sample_env\<lparr>client := (\<lambda>attempt prompt.
       if attempt = 1 then Inr ''One moment.'' else Inr sample_answer)\<rparr>"

text \<open>An endpoint that answers with one object nested three deep, and its decoder.\<close>

definition deep_object :: string where
  "deep_object = ''{\"a\": {\"b\": {\"c\": 1}}}''"

definition deep_loads :: "string \<Rightarrow> exn + json" where
  "deep_loads s =
     (if s = deep_object
      then Inr (JObject [(''a'', JObject [(''b'', JObject [(''c'', JInt 1)])])])
      else if s = ''{\"b\": {\"c\": 1}}''
      then Inr (JObject [(''b'', JObject [(''c'', JInt 1)])])
      else Inl JSONDecodeError)"

definition deep_env :: env where
  "deep_env = sample_env\<lparr>client := (\<lambda>attempt prompt. Inr deep_object), json_loads := deep_loads\<rparr>"

text \<open>
  A speech service that fails on the second line, after the task of the first line has
  written part of its clip.
\<close>

definition broken_tts_env :: env where
  "broken_tts_env =
     sample_env\<lparr>tts_save := (\<lambda>i text voice. if i = 1 then Inl SynthesisError else Inr voice),
                tts_leftover := (\<lambda>i. if i = 0 then Some ''en-GB'' else None)\<rparr>"

text \<open>The artifacts of a successful run of the day before, and of an earlier run today.\<close>

definition yesterday_world :: world where
  "yesterday_world =
     \<lparr>files = [PODCAST_FILE \<mapsto> ''old episode'', SHOW_NOTES_FILE \<mapsto> ''old notes'',
               CONVERSATION_FILE \<mapsto> ''old conversation'', LAST_RUN_FILE \<mapsto> ''2026-11-02''],
      trace = [], bucket = Map.empty\<rparr>"

definition today_world :: world where
  "today_world =
     \<lparr>files = [PODCAST_FILE \<mapsto> ''old episode'', SHOW_NOTES_FILE \<mapsto> ''old notes'',
               CONVERSATION_FILE \<mapsto> ''old conversation'', LAST_RUN_FILE \<mapsto> ''2026-11-03''],
      trace = [], bucket = Map.empty\<rparr>"


text \<open>Three clips on disk, of one, two and three bytes.\<close>

definition clips_world :: world where
  "clips_world =
     \<lparr>files = [''audio_0.mp3'' \<mapsto> ''a'', ''audio_1.mp3'' \<mapsto> ''bb'', ''audio_2.mp3'' \<mapsto> ''ccc''],
      trace = [], bucket = Map.empty\<rparr>"

text \<open>Three lines, the last one by a speaker who is neither host.\<close>

definition guest_lines :: "json list" where
  "guest_lines =
     [JObject [(''speaker'', JString ''Brian''), (''text'', JString ''Hi'')],
      JObject [(''speaker'', JString ''Jenny''), (''text'', JString ''Hello'')],
      JObject [(''speaker'', JString ''brian''), (''text'', JString ''Hey'')]]"

definition guest_spoken :: "(json \<times> json) list" where
  "guest_spoken =
     [(JString ''Brian'', JString ''Hi''), (JString ''Jenny'', JString ''Hello''),
      (JString ''brian'', JString ''Hey'')]"

section \<open>Facts about text\<close>

lemma sublist_in_context: "sublist xs ys \<Longrightarrow> sublist xs (ps @ ys @ ss)"
  unfolding sublist_def by (metis append.assoc)

lemma sublist_chain: "sublist xs ys \<Longrightarrow> sublist ys zs \<Longrightarrow> sublist xs zs"
  by (meson sublist_order.order.trans)

lemma sublist_str_join: "p \<in> set ps \<Longrightarrow> sublist p (str_join sep ps)"
proof (induction sep ps rule: str_join.induct)
  case (1 sep)
  then show ?case by simp
next
  case (2 sep q)
  then show ?case by simp
next
  case (3 sep q r rs)
  show ?case
  proof (cases "p = q")
    case True
    then show ?thesis by simp
  next
    case False
    with 3 have "sublist p (str_join sep (r # rs))" by simp
    then have "sublist p ((q @ sep) @ str_join sep (r # rs) @ [])"
      by (rule sublist_in_context)
    then show ?thesis by simp
  qed
qed

section \<open>Prompt builder: what the prompt contains\<close>

lemma sublist_paper_summary:
  "sublist (title item) (paper_summary item)"
  "sublist (link item) (paper_summary item)"
  "sublist (description item) (paper_summary item)"
proof -
  have "paper_summary item = ''- '' @ title item @ ('' ('' @ link item @ ''): '' @ description item)"
    by (simp add: paper_summary_def)
  then show "sublist (title item) (paper_summary item)"
    by (simp only: sublist_appendI)
  have "paper_summary item = (''- '' @ title item @ '' ('') @ link item @ (''): '' @ description item)"
    by (simp add: paper_summary_def)
  then show "sublist (link item) (paper_summary item)"
    by (simp only: sublist_appendI)
  have "paper_summary item = (''- '' @ title item @ '' ('' @ link item @ ''): '') @ description item"
    by (simp add: paper_summary_def)
  then show "sublist (description item) (paper_summary item)"
    by (simp only: sublist_append_leftI)
qed

lemma build_prompt_shape:
  "build_prompt text its = prompt_head @ str_join NL (map paper_summary its) @ prompt_tail @ template"
  unfolding build_prompt_def prompt_head_def prompt_tail_def Let_def
  by (simp only: append_assoc)

lemma template_literal:
  "template =
     [CHR 0x0A] @ ''    {'' @ [CHR 0x0A]
     @ ''        \"conversation\": ['' @ [CHR 0x0A]
     @ ''            {\"speaker\": \"Brian\", \"text\": \"\"},'' @ [CHR 0x0A]
     @ ''            {\"speaker\": \"Jenny\", \"text\": \"\"}'' @ [CHR 0x0A]
     @ ''        ]'' @ [CHR 0x0A]
     @ ''    }'' @ [CHR 0x0A]
     @ ''    ''"
  by (simp add: template_def NL_def)

lemma prompt_tail_instruction:
  "prompt_tail = take 558 prompt_tail
     @ ''Please return the conversation in **this exact JSON format**:'' @ [CHR 0x0A]"
  by (simp add: prompt_tail_def NL_def)

lemma prompt_tail_start:
  "prompt_tail = [CHR 0x0A, CHR 0x0A] @ ''Convert this into a'' @ drop 21 prompt_tail"
  by (simp add: prompt_tail_def NL_def)

lemma prompt_head_end:
  "prompt_head = take 268 prompt_head @ ''Here are today's research papers:'' @ [CHR 0x0A]"
  by (simp add: prompt_head_def NL_def microphone_def apostrophe_def)

text \<open>
  C8. For every list of paper items, the prompt contains the title, the link and the
  description of every item as contiguous substrings. It ends with the request for
  ``this exact JSON format'' followed by the literal example of the output shape: an
  object whose \<open>conversation\<close> entry is a list of two speaker/text pairs, one for Brian and
  one for Jenny, with empty texts. For the empty list the prompt is still the full fixed
  text, with an empty line where the papers would be listed, and ends with the same
  example.
\<close>

theorem build_prompt_contains_items:
  "(\<forall>item \<in> set its.
      sublist (title item) (build_prompt text its)
    \<and> sublist (link item) (build_prompt text its)
    \<and> sublist (description item) (build_prompt text its))
   \<and> suffix (''Please return the conversation in **this exact JSON format**:'' @ [CHR 0x0A]
         @ [CHR 0x0A] @ ''    {'' @ [CHR 0x0A]
         @ ''        \"conversation\": ['' @ [CHR 0x0A]
         @ ''            {\"speaker\": \"Brian\", \"text\": \"\"},'' @ [CHR 0x0A]
         @ ''            {\"speaker\": \"Jenny\", \"text\": \"\"}'' @ [CHR 0x0A]
         @ ''        ]'' @ [CHR 0x0A]
         @ ''    }'' @ [CHR 0x0A]
         @ ''    '')
        (build_prompt text its)
   \<and> sublist (''Here are today's research papers:'' @ [CHR 0x0A, CHR 0x0A, CHR 0x0A]
         @ ''Convert this into a'')
        (build_prompt text [])"
proof (intro conjI ballI)
  fix item assume "item \<in> set its"
  then have "sublist (paper_summary item) (str_join NL (map paper_summary its))"
    by (intro sublist_str_join) simp
  then have inside: "sublist (paper_summary item) (build_prompt text its)"
    unfolding build_prompt_shape by (rule sublist_in_context)
  show "sublist (title item) (build_prompt text its)"
    using sublist_paper_summary(1) inside by (rule sublist_chain)
  show "sublist (link item) (build_prompt text its)"
    using sublist_paper_summary(2) inside by (rule sublist_chain)
  show "sublist (description item) (build_prompt text its)"
    using sublist_paper_summary(3) inside by (rule sublist_chain)
next
  have "build_prompt text its
          = prompt_head @ str_join NL (map paper_summary its) @ prompt_tail @ template"
    by (rule build_prompt_shape)
  also have "prompt_tail = take 558 prompt_tail
     @ ''Please return the conversation in **this exact JSON format**:'' @ [CHR 0x0A]"
    by (rule prompt_tail_instruction)
  finally have "build_prompt text its =
          (prompt_head @ str_join NL (map paper_summary its) @ take 558 prompt_tail)
          @ (''Please return the conversation in **this exact JSON format**:'' @ [CHR 0x0A])
          @ template"
    by (simp only: append_assoc)
  then show "suffix (''Please return the conversation in **this exact JSON format**:'' @ [CHR 0x0A]
         @ [CHR 0x0A] @ ''    {'' @ [CHR 0x0A]
         @ ''        \"conversation\": ['' @ [CHR 0x0A]
         @ ''            {\"speaker\": \"Brian\", \"text\": \"\"},'' @ [CHR 0x0A]
         @ ''            {\"speaker\": \"Jenny\", \"text\": \"\"}'' @ [CHR 0x0A]
         @ ''        ]'' @ [CHR 0x0A]
         @ ''    }'' @ [CHR 0x0A]
         @ ''    '')
        (build_prompt text its)"
    unfolding template_literal suffix_def by (metis append.assoc)
next
  have "build_prompt text [] = prompt_head @ prompt_tail @ template"
    by (simp add: build_prompt_shape)
  also have "prompt_head = take 268 prompt_head @ ''Here are today's research papers:'' @ [CHR 0x0A]"
    by (rule prompt_head_end)
  also have "prompt_tail = [CHR 0x0A, CHR 0x0A] @ ''Convert this into a'' @ drop 21 prompt_tail"
    by (rule prompt_tail_start)
  finally have "build_prompt text [] = take 268 prompt_head
      @ (''Here are today's research papers:'' @ [CHR 0x0A, CHR 0x0A, CHR 0x0A]
         @ ''Convert this into a'')
      @ (drop 21 prompt_tail @ template)"
    by simp
  then show "sublist (''Here are today's research papers:'' @ [CHR 0x0A, CHR 0x0A, CHR 0x0A]
         @ ''Convert this into a'')
        (build_prompt text [])"
    unfolding sublist_def by blast
qed


theorem build_prompt_contains_items_witness:
  "sublist ''Tiny Diffusion'' (build_prompt (daily_feed sample_env) sample_items)
   \<and> sublist ''http://p/2'' (build_prompt (daily_feed sample_env) sample_items)
   \<and> sublist ''Small models.'' (build_prompt (daily_feed sample_env) sample_items)
   \<and> sublist ''Sparse Attention'' (build_prompt (daily_feed sample_env) sample_items)
   \<and> suffix (''Please return the conversation in **this exact JSON format**:'' @ [CHR 0x0A]
         @ [CHR 0x0A] @ ''    {'' @ [CHR 0x0A]
         @ ''        \"conversation\": ['' @ [CHR 0x0A]
         @ ''            {\"speaker\": \"Brian\", \"text\": \"\"},'' @ [CHR 0x0A]
         @ ''            {\"speaker\": \"Jenny\", \"text\": \"\"}'' @ [CHR 0x0A]
         @ ''        ]'' @ [CHR 0x0A]
         @ ''    }'' @ [CHR 0x0A]
         @ ''    '')
        (build_prompt (daily_feed sample_env) sample_items)"
  using build_prompt_contains_items [of sample_items "daily_feed sample_env"]
  by (simp add: sample_items_def)

text \<open>
  C9. The prompt does not depend on the first parameter: two calls with the same items
  and any two texts build the same prompt.
\<close>

theorem build_prompt_ignores_text:
  "build_prompt t1 its = build_prompt t2 its"
  by (simp add: build_prompt_def)

section \<open>What the pattern matches\<close>

lemma rx_match_no_brace:
  "rx_match no_brace [] = []"
  "rx_match no_brace (c # cs) = (if is_brace c then [] else [cs])"
  by (auto simp: no_brace_def is_brace_def)

lemma inner_rest_Nil: "inner_rest [] = []"
  by (simp add: inner_rest_def rx_match_no_brace)

lemma inner_rest_Cons:
  "inner_rest (c # cs) =
     (if c = CHR ''}'' then [cs] else if c = CHR ''{'' then [] else inner_rest cs)"
  by (simp add: inner_rest_def rx_match_no_brace is_brace_def)

lemma inner_rest_shorter: "r \<in> set (inner_rest s) \<Longrightarrow> length r < length s"
  by (induction s) (auto simp: inner_rest_Nil inner_rest_Cons split: if_splits)

lemma inner_rest_cases: "inner_rest s = [] \<or> (\<exists>r. inner_rest s = [r])"
  by (induction s) (auto simp: inner_rest_Nil inner_rest_Cons)

lemma rx_match_inner_object:
  "rx_match inner_object [] = []"
  "rx_match inner_object (c # cs) = (if c = CHR ''{'' then inner_rest cs else [])"
  by (simp_all add: inner_object_def inner_rest_def)

lemma object_rest_Nil: "object_rest [] = []"
  by (simp add: object_rest_def rx_match_no_brace rx_match_inner_object)

lemma object_rest_close: "object_rest (CHR ''}'' # cs) = [cs]"
  by (simp add: object_rest_def rx_match_no_brace rx_match_inner_object is_brace_def)

lemma object_rest_plain: "\<not> is_brace c \<Longrightarrow> object_rest (c # cs) = object_rest cs"
  by (simp add: object_rest_def rx_match_no_brace rx_match_inner_object is_brace_def)

lemma object_rest_open:
  "object_rest (CHR ''{'' # cs) = concat (map object_rest (inner_rest cs))"
proof -
  have guard: "map (\<lambda>s'. if length s' < Suc (length cs) then rx_match (Star (Alt no_brace inner_object)) s' else [])
                 (inner_rest cs)
               = map (rx_match (Star (Alt no_brace inner_object))) (inner_rest cs)"
    by (intro map_cong) (auto dest: inner_rest_shorter)
  show ?thesis
    using inner_rest_cases [of cs]
    by (auto simp: object_rest_def rx_match_no_brace rx_match_inner_object is_brace_def guard)
qed

lemma rx_match_pattern:
  "rx_match pattern [] = []"
  "rx_match pattern (c # cs) = (if c = CHR ''{'' then object_rest cs else [])"
  by (simp_all add: pattern_def object_rest_def)


lemma re_search_skip: "c \<noteq> CHR ''{'' \<Longrightarrow> re_search pattern (c # cs) = re_search pattern cs"
  by (simp add: rx_match_pattern)

lemma re_search_prose: "brace_free pre \<Longrightarrow> re_search pattern (pre @ s) = re_search pattern s"
proof (induction pre)
  case Nil
  then show ?case by simp
next
  case (Cons c pre)
  then have "c \<noteq> CHR ''{''" and "brace_free pre"
    by (auto simp: brace_free_def is_brace_def)
  then show ?case
    using Cons.IH by (simp add: rx_match_pattern)
qed

lemma inner_rest_closes:
  "closes 2 cs \<Longrightarrow> \<exists>r. inner_rest (cs @ post) = [r @ post] \<and> closes 1 r \<and> length r < length cs"
proof (induction cs)
  case Nil
  then show ?case by simp
next
  case (Cons c cs)
  show ?case
  proof (cases "c = CHR ''}''")
    case True
    with Cons.prems show ?thesis by (simp add: inner_rest_Cons)
  next
    case False
    with Cons.prems have "c \<noteq> CHR ''{''" and "closes 2 cs"
      by (auto split: if_splits)
    with Cons.IH False show ?thesis
      by (auto simp: inner_rest_Cons)
  qed
qed

lemma object_rest_closes: "closes 1 cs \<Longrightarrow> object_rest (cs @ post) = [post]"
proof (induction "length cs" arbitrary: cs rule: less_induct)
  case less
  show ?case
  proof (cases cs)
    case Nil
    with less.prems show ?thesis by simp
  next
    case (Cons c cs')
    consider (close) "c = CHR ''}''" | (opn) "c = CHR ''{''" | (plain) "\<not> is_brace c"
      by (auto simp: is_brace_def)
    then show ?thesis
    proof cases
      case close
      with less.prems Cons show ?thesis by (simp add: object_rest_close)
    next
      case opn
      with less.prems Cons have "closes 2 cs'" by (simp add: numeral_2_eq_2)
      then obtain r where r: "inner_rest (cs' @ post) = [r @ post]" "closes 1 r" "length r < length cs'"
        using inner_rest_closes by blast
      then have "object_rest (r @ post) = [post]"
        using less.hyps [of r] Cons by simp
      with r opn Cons show ?thesis by (simp add: object_rest_open)
    next
      case plain
      with less.prems Cons have "closes 1 cs'"
        by (auto simp: is_brace_def split: if_splits)
      then have "object_rest (cs' @ post) = [post]"
        using less.hyps [of cs'] Cons by simp
      with plain Cons show ?thesis by (simp add: object_rest_plain)
    qed
  qed
qed

lemma re_search_object:
  assumes "one_level_object obj"
  shows "re_search pattern (obj @ post) = Some obj"
proof -
  from assms obtain cs where obj: "obj = CHR ''{'' # cs" and "closes 1 cs"
    by (auto simp: one_level_object_def split: list.splits)
  then have "rx_match pattern (obj @ post) = [post]"
    by (simp add: rx_match_pattern object_rest_closes)
  with obj show ?thesis by simp
qed

lemma re_search_found:
  "brace_free pre \<Longrightarrow> one_level_object obj \<Longrightarrow> re_search pattern (pre @ obj @ post) = Some obj"
  by (simp only: re_search_prose re_search_object)

section \<open>Conversation generator: attempts and retries\<close>

lemma attempt_body_result:
  "fst (attempt_body e feed its k w) =
     (case client e k (build_prompt feed its) of
        Inl x \<Rightarrow> Inl x
      | Inr content \<Rightarrow>
          (case re_search pattern content of
             Some m \<Rightarrow> json_loads e m
           | None \<Rightarrow> Inl (ValueError ''No valid JSON found in response'')))"
  by (simp add: attempt_body_def Let_def split: sum.splits option.splits)

lemma attempt_body_world:
  "snd (attempt_body e feed its k w) = w\<lparr>trace := trace w @ [Completion k (build_prompt feed its)]\<rparr>"
  by (simp add: attempt_body_def Let_def split: sum.splits option.splits)

lemma attempt_fails_iff: "attempt_fails e feed its k \<longleftrightarrow> isl (fst (attempt_body e feed its k w))"
  by (simp add: attempt_fails_def attempt_body_result split: sum.splits option.splits)

lemma attempt_body_failed:
  assumes "attempt_fails e feed its k"
  obtains x where
    "attempt_body e feed its k w = (Inl x, w\<lparr>trace := trace w @ [Completion k (build_prompt feed its)]\<rparr>)"
proof -
  from assms have "isl (fst (attempt_body e feed its k w))"
    using attempt_fails_iff by blast
  then obtain x where "fst (attempt_body e feed its k w) = Inl x"
    by (auto simp: isl_def)
  then have "attempt_body e feed its k w = (Inl x, w\<lparr>trace := trace w @ [Completion k (build_prompt feed its)]\<rparr>)"
    using attempt_body_world [of e feed its k w] by (simp add: prod_eq_iff)
  then show ?thesis by (rule that)
qed

lemma attempts_loop_all_fail:
  assumes "a \<le> n" and "\<forall>k \<in> {a..n}. attempt_fails e feed its k"
  shows "attempts_loop e feed its n [a..n] w =
           (Inl (RuntimeError (''Failed after '' @ str_int n @ '' attempts.'')),
            w\<lparr>trace := trace w @ retry_trace (build_prompt feed its) [a..n]\<rparr>)"
  using assms
proof (induction "nat (n - a)" arbitrary: a w)
  case 0
  then have "a = n" by simp
  then have range: "[a..n] = [n]" by (simp add: upto_rec1)
  from 0 \<open>a = n\<close> have "attempt_fails e feed its n" by simp
  then obtain x where
    "attempt_body e feed its n w = (Inl x, w\<lparr>trace := trace w @ [Completion n (build_prompt feed its)]\<rparr>)"
    by (rule attempt_body_failed)
  then show ?case by (simp add: range)
next
  case (Suc d)
  then have "a < n" by simp
  then obtain later where range': "[a + 1..n] = (a + 1) # later"
    using upto_rec1 [of "a + 1" n] by simp
  from \<open>a < n\<close> have range: "[a..n] = a # (a + 1) # later"
    using upto_rec1 [of a n] range' by simp
  from Suc.prems \<open>a < n\<close> have "attempt_fails e feed its a" by simp
  then obtain x where body:
    "attempt_body e feed its a w = (Inl x, w\<lparr>trace := trace w @ [Completion a (build_prompt feed its)]\<rparr>)"
    by (rule attempt_body_failed)
  have "d = nat (n - (a + 1))" using Suc.hyps(2) by simp
  moreover have "a + 1 \<le> n" using \<open>a < n\<close> by simp
  moreover have "\<forall>k \<in> {a + 1..n}. attempt_fails e feed its k" using Suc.prems by simp
  ultimately have IH: "\<And>w. attempts_loop e feed its n [a + 1..n] w =
           (Inl (RuntimeError (''Failed after '' @ str_int n @ '' attempts.'')),
            w\<lparr>trace := trace w @ retry_trace (build_prompt feed its) [a + 1..n]\<rparr>)"
    using Suc.hyps(1) by blast
  have "attempts_loop e feed its n [a..n] w =
          attempts_loop e feed its n [a + 1..n]
            (w\<lparr>trace := trace w @ [Completion a (build_prompt feed its), Sleep 2]\<rparr>)"
    using body \<open>a < n\<close> unfolding range range' [symmetric] by simp
  also have "\<dots> = (Inl (RuntimeError (''Failed after '' @ str_int n @ '' attempts.'')),
            w\<lparr>trace := trace w @ retry_trace (build_prompt feed its) [a..n]\<rparr>)"
    unfolding IH unfolding range range' by simp
  finally show ?case .
qed

lemma retry_trace_requests:
  "[k. Completion k p \<leftarrow> retry_trace prompt ks] = ks"
  by (induction prompt ks rule: retry_trace.induct) simp_all

lemma retry_trace_pauses:
  "[d. Sleep d \<leftarrow> retry_trace prompt ks] = replicate (length ks - 1) 2"
  by (induction prompt ks rule: retry_trace.induct) simp_all

lemma silent_env_fails: "attempt_fails silent_env feed its k"
  by (simp add: attempt_fails_def silent_env_def sample_env_def rx_match_pattern)

text \<open>
  C5, as the code has it. If \<open>max_retries\<close> is at least 1 and every attempt from 1 to
  \<open>max_retries\<close> fails, \<open>extract_conversation\<close> of \<open>app.py\<close> raises the RuntimeError
  ``Failed after \<open>max_retries\<close> attempts.'' after exactly \<open>max_retries\<close> completion requests,
  numbered 1 to \<open>max_retries\<close>, with a pause of 2 seconds after every failed attempt but the
  last (\<open>max_retries - 1\<close> pauses). The number of attempts is a parameter; the pause is the
  constant 2.
\<close>

theorem extract_conversation_exhausts:
  assumes "1 \<le> max_retries"
    and "\<forall>k \<in> {1..max_retries}. attempt_fails e feed its k"
  shows "extract_conversation e feed its max_retries w =
           (Inl (RuntimeError (''Failed after '' @ str_int max_retries @ '' attempts.'')),
            w\<lparr>trace := trace w @ retry_trace (build_prompt feed its) [1..max_retries]\<rparr>)
         \<and> [k. Completion k p \<leftarrow> retry_trace (build_prompt feed its) [1..max_retries]]
             = [1..max_retries]
         \<and> [d. Sleep d \<leftarrow> retry_trace (build_prompt feed its) [1..max_retries]]
             = replicate (nat max_retries - 1) 2"
  using assms
  by (simp add: extract_conversation_def attempts_loop_all_fail retry_trace_requests
      retry_trace_pauses)

theorem extract_conversation_exhausts_witness:
  "extract_conversation silent_env (daily_feed silent_env) (items silent_env) 3 empty_world =
     (Inl (RuntimeError ''Failed after 3 attempts.''),
      empty_world\<lparr>trace :=
        [Completion 1 (build_prompt (daily_feed silent_env) (items silent_env)), Sleep 2,
         Completion 2 (build_prompt (daily_feed silent_env) (items silent_env)), Sleep 2,
         Completion 3 (build_prompt (daily_feed silent_env) (items silent_env))]\<rparr>)"
proof -
  have range: "[1..3::int] = [1, 2, 3]" by (simp add: upto_rec1)
  have "str_int 3 = ''3''" by (simp add: str_int_def str_nat.simps)
  then show ?thesis
    using extract_conversation_exhausts
            [of 3 silent_env "daily_feed silent_env" "items silent_env" empty_world]
          silent_env_fails
    by (simp add: range empty_world_def)
qed

text \<open>
  The claim as stated fails in two places. With \<open>max_retries = 0\<close> no attempt fails, none
  is made, and the function returns \<open>None\<close> instead of raising. In \<open>cloudflare_app.py\<close>
  the function makes a single attempt and lets its ValueError through, with no retry.
\<close>

theorem extract_conversation_without_retry:
  "extract_conversation silent_env (daily_feed silent_env) (items silent_env) 0 empty_world
     = (Inr JNull, empty_world)
   \<and> cf_extract_conversation silent_env (daily_feed silent_env) (items silent_env) empty_world
     = (Inl (ValueError ''No valid JSON found in response''),
        empty_world\<lparr>trace :=
          [Completion 1 (build_prompt (daily_feed silent_env) (items silent_env))]\<rparr>)"
  by (simp add: extract_conversation_def cf_extract_conversation_def Let_def silent_env_def
      sample_env_def empty_world_def rx_match_pattern)

section \<open>Conversation generator: the value returned\<close>

lemma field_smaller: "map_of kvs k = Some v \<Longrightarrow> size v < size (JObject kvs)"
proof (induction kvs)
  case Nil
  then show ?case by simp
next
  case (Cons kv kvs)
  then show ?case by (cases kv) (auto split: if_splits)
qed

lemma py_getitem_proper: "py_getitem v k \<noteq> Inr v"
proof
  assume own: "py_getitem v k = Inr v"
  then obtain kvs where v: "v = JObject kvs"
    by (cases v) simp_all
  with own have "map_of kvs k = Some v"
    by (simp split: option.splits)
  then have "size v < size (JObject kvs)" by (rule field_smaller)
  with v show False by simp
qed

lemma attempts_loop_returns:
  assumes "attempts_loop e feed its n ks w = (Inr v, w')" and "ks \<noteq> [] \<longrightarrow> n \<le> last ks"
  shows "(ks = [] \<and> v = JNull) \<or> (\<exists>k \<in> set ks. fst (attempt_body e feed its k w0) = Inr v)"
  using assms
proof (induction ks arbitrary: w)
  case Nil
  then show ?case by simp
next
  case (Cons k ks)
  show ?case
  proof (cases "fst (attempt_body e feed its k w0)")
    case (Inr u)
    then have "fst (attempt_body e feed its k w) = Inr u"
      by (simp add: attempt_body_result)
    with Cons.prems have "u = v"
      by (auto simp: prod_eq_iff split: prod.splits sum.splits)
    with Inr show ?thesis by simp
  next
    case (Inl x)
    then have failed: "fst (attempt_body e feed its k w) = Inl x"
      by (simp add: attempt_body_result)
    with Cons.prems(1) obtain w1 where rest: "attempts_loop e feed its n ks w1 = (Inr v, w')"
      and "k < n"
      by (auto split: prod.splits sum.splits if_splits)
    with Cons.prems(2) have "ks \<noteq> []" and "n \<le> last ks"
      by (auto split: if_splits)
    with rest have "(ks = [] \<and> v = JNull) \<or> (\<exists>k \<in> set ks. fst (attempt_body e feed its k w0) = Inr v)"
      by (intro Cons.IH) simp_all
    with \<open>ks \<noteq> []\<close> show ?thesis by auto
  qed
qed


lemma attempt_body_parsed:
  assumes "fst (attempt_body e feed its k w) = Inr v"
  shows "\<exists>content json_match. client e k (build_prompt feed its) = Inr content
           \<and> re_search pattern content = Some json_match \<and> json_loads e json_match = Inr v"
  using assms by (auto simp: attempt_body_result split: sum.splits option.splits)

lemma cf_extract_conversation_eq:
  "cf_extract_conversation e feed its w = attempt_body e feed its 1 w"
  by (simp add: cf_extract_conversation_def attempt_body_def)

lemma sample_search:
  "re_search pattern sample_answer = Some sample_object"
  unfolding sample_answer_def
  by (rule re_search_found)
     (simp_all add: brace_free_def is_brace_def one_level_object_def sample_object_def)

lemma sample_extract:
  "extract_conversation sample_env (daily_feed sample_env) (items sample_env) 3 empty_world
     = (Inr sample_conversation,
        empty_world\<lparr>trace := [Completion 1 (build_prompt (daily_feed sample_env) (items sample_env))]\<rparr>)"
proof -
  have range: "[1..3::int] = [1, 2, 3]" by (simp add: upto_rec1)
  have "attempt_body sample_env (daily_feed sample_env) (items sample_env) 1 empty_world
        = (Inr sample_conversation,
        empty_world\<lparr>trace := [Completion 1 (build_prompt (daily_feed sample_env) (items sample_env))]\<rparr>)"
    by (simp add: attempt_body_def Let_def sample_env_def sample_search sample_loads_def empty_world_def)
  then show ?thesis
    by (simp add: extract_conversation_def range)
qed

lemma sample_cf_extract:
  "cf_extract_conversation sample_env (daily_feed sample_env) (items sample_env) empty_world
     = (Inr sample_conversation,
        empty_world\<lparr>trace := [Completion 1 (build_prompt (daily_feed sample_env) (items sample_env))]\<rparr>)"
  by (simp add: cf_extract_conversation_def Let_def sample_env_def sample_search sample_loads_def
      empty_world_def)

lemma attempt_body_succeeded:
  assumes "client e k (build_prompt feed its) = Inr content"
    and "re_search pattern content = Some json_match"
    and "json_loads e json_match = Inr v"
  shows "attempt_body e feed its k w
           = (Inr v, w\<lparr>trace := trace w @ [Completion k (build_prompt feed its)]\<rparr>)"
  using assms by (simp add: attempt_body_def Let_def)

lemma attempts_loop_first_success:
  assumes "a \<le> k" and "k \<le> n"
    and "\<forall>j \<in> {a..<k}. attempt_fails e feed its j"
    and "client e k (build_prompt feed its) = Inr content"
    and "re_search pattern content = Some json_match"
    and "json_loads e json_match = Inr v"
  shows "attempts_loop e feed its n [a..n] w =
           (Inr v, w\<lparr>trace := trace w @ retry_trace (build_prompt feed its) [a..k]\<rparr>)"
  using assms(1,3)
proof (induction "nat (k - a)" arbitrary: a w)
  case 0
  then have "a = k" by simp
  with assms(2) obtain later where range: "[a..n] = k # later"
    using upto_rec1 [of a n] by simp
  have single: "[k..k] = [k]" by simp
  show ?case
    using attempt_body_succeeded [OF assms(4-6), of w] \<open>a = k\<close>
    unfolding range by (simp add: single)
next
  case (Suc d)
  then have "a < k" by simp
  with assms(2) have "a < n" by simp
  then obtain later where range': "[a + 1..n] = (a + 1) # later"
    using upto_rec1 [of "a + 1" n] by simp
  from \<open>a < n\<close> have range: "[a..n] = a # (a + 1) # later"
    using upto_rec1 [of a n] range' by simp
  from \<open>a < k\<close> obtain sooner where upto': "[a + 1..k] = (a + 1) # sooner"
    using upto_rec1 [of "a + 1" k] by simp
  from \<open>a < k\<close> have upto: "[a..k] = a # (a + 1) # sooner"
    using upto_rec1 [of a k] upto' by simp
  from Suc.prems \<open>a < k\<close> have "attempt_fails e feed its a" by simp
  then obtain x where body:
    "attempt_body e feed its a w = (Inl x, w\<lparr>trace := trace w @ [Completion a (build_prompt feed its)]\<rparr>)"
    by (rule attempt_body_failed)
  have "d = nat (k - (a + 1))" using Suc.hyps(2) by simp
  moreover have "a + 1 \<le> k" using \<open>a < k\<close> by simp
  moreover have "\<forall>j \<in> {a + 1..<k}. attempt_fails e feed its j" using Suc.prems by simp
  ultimately have IH: "\<And>w. attempts_loop e feed its n [a + 1..n] w =
           (Inr v, w\<lparr>trace := trace w @ retry_trace (build_prompt feed its) [a + 1..k]\<rparr>)"
    using Suc.hyps(1) by blast
  have "attempts_loop e feed its n [a..n] w =
          attempts_loop e feed its n [a + 1..n]
            (w\<lparr>trace := trace w @ [Completion a (build_prompt feed its), Sleep 2]\<rparr>)"
    using body \<open>a < n\<close> unfolding range range' [symmetric] by simp
  also have "\<dots> = (Inr v, w\<lparr>trace := trace w @ retry_trace (build_prompt feed its) [a..k]\<rparr>)"
    unfolding IH unfolding upto upto' by simp
  finally show ?case .
qed

text \<open>
  C3, as the code has it. If attempt \<open>k\<close> is the first that does not fail, that is, the
  attempts before it fail, its answer has a match of the pattern and \<open>json.loads\<close> parses
  the matched text, then \<open>extract_conversation\<close> of \<open>app.py\<close> returns exactly the parsed
  value, after the requests 1 to \<open>k\<close> with a pause after each failed one; in
  \<open>cloudflare_app.py\<close> the single request returns the parsed value likewise. Conversely a
  returned value is always the parsed match of some attempt. What is returned is the whole
  parsed object and never its own \<open>conversation\<close> field, since no value is a field of
  itself; the synthesizer takes the field out later.
\<close>

theorem extract_conversation_returns_parsed_object:
  "(1 \<le> k \<and> k \<le> max_retries \<and> (\<forall>j \<in> {1..<k}. attempt_fails e feed its j)
      \<and> client e k (build_prompt feed its) = Inr content
      \<and> re_search pattern content = Some json_match
      \<and> json_loads e json_match = Inr parsed \<longrightarrow>
      extract_conversation e feed its max_retries w
        = (Inr parsed, w\<lparr>trace := trace w @ retry_trace (build_prompt feed its) [1..k]\<rparr>))
   \<and> (client e 1 (build_prompt feed its) = Inr content
      \<and> re_search pattern content = Some json_match
      \<and> json_loads e json_match = Inr parsed \<longrightarrow>
      cf_extract_conversation e feed its w
        = (Inr parsed, w\<lparr>trace := trace w @ [Completion 1 (build_prompt feed its)]\<rparr>))
   \<and> (1 \<le> max_retries \<and> extract_conversation e feed its max_retries w = (Inr v, w') \<longrightarrow>
      (\<exists>k content json_match. 1 \<le> k \<and> k \<le> max_retries
         \<and> client e k (build_prompt feed its) = Inr content
         \<and> re_search pattern content = Some json_match
         \<and> json_loads e json_match = Inr v))
   \<and> (cf_extract_conversation e feed its w = (Inr v, w') \<longrightarrow>
      (\<exists>content json_match. client e 1 (build_prompt feed its) = Inr content
         \<and> re_search pattern content = Some json_match
         \<and> json_loads e json_match = Inr v))
   \<and> py_getitem parsed ''conversation'' \<noteq> Inr parsed"
proof (intro conjI impI; (elim conjE)?)
  assume "1 \<le> k" "k \<le> max_retries" "\<forall>j \<in> {1..<k}. attempt_fails e feed its j"
    "client e k (build_prompt feed its) = Inr content"
    "re_search pattern content = Some json_match"
    "json_loads e json_match = Inr parsed"
  then show "extract_conversation e feed its max_retries w
        = (Inr parsed, w\<lparr>trace := trace w @ retry_trace (build_prompt feed its) [1..k]\<rparr>)"
    unfolding extract_conversation_def by (rule attempts_loop_first_success)
next
  assume "client e 1 (build_prompt feed its) = Inr content"
    "re_search pattern content = Some json_match"
    "json_loads e json_match = Inr parsed"
  then show "cf_extract_conversation e feed its w
        = (Inr parsed, w\<lparr>trace := trace w @ [Completion 1 (build_prompt feed its)]\<rparr>)"
    unfolding cf_extract_conversation_eq by (rule attempt_body_succeeded)
next
  assume "1 \<le> max_retries" and run: "extract_conversation e feed its max_retries w = (Inr v, w')"
  then have "[1..max_retries] \<noteq> []" and "last [1..max_retries] = max_retries"
    by (simp_all add: upto_rec2)
  with run have "\<exists>k \<in> set [1..max_retries]. fst (attempt_body e feed its k w) = Inr v"
    using attempts_loop_returns [of e feed its max_retries "[1..max_retries]" w v w' w]
    by (simp add: extract_conversation_def)
  then obtain k where "1 \<le> k" "k \<le> max_retries" "fst (attempt_body e feed its k w) = Inr v"
    by auto
  then show "\<exists>k content json_match. 1 \<le> k \<and> k \<le> max_retries
         \<and> client e k (build_prompt feed its) = Inr content
         \<and> re_search pattern content = Some json_match
         \<and> json_loads e json_match = Inr v"
    using attempt_body_parsed [of e feed its k w v] by blast
next
  assume "cf_extract_conversation e feed its w = (Inr v, w')"
  then have "fst (attempt_body e feed its 1 w) = Inr v"
    by (simp add: cf_extract_conversation_eq)
  then show "\<exists>content json_match. client e 1 (build_prompt feed its) = Inr content
         \<and> re_search pattern content = Some json_match
         \<and> json_loads e json_match = Inr v"
    by (rule attempt_body_parsed)
next
  show "py_getitem parsed ''conversation'' \<noteq> Inr parsed"
    by (rule py_getitem_proper)
qed


theorem extract_conversation_returns_parsed_object_witness:
  "extract_conversation flaky_env (daily_feed flaky_env) (items flaky_env) 3 empty_world
     = (Inr sample_conversation,
        empty_world\<lparr>trace :=
          [Completion 1 (build_prompt (daily_feed flaky_env) (items flaky_env)), Sleep 2,
           Completion 2 (build_prompt (daily_feed flaky_env) (items flaky_env))]\<rparr>)
   \<and> cf_extract_conversation sample_env (daily_feed sample_env) (items sample_env) empty_world
     = (Inr sample_conversation,
        empty_world\<lparr>trace :=
          [Completion 1 (build_prompt (daily_feed sample_env) (items sample_env))]\<rparr>)"
proof -
  have range: "[1..2::int] = [1, 2]" by (simp add: upto_rec1)
  have before: "\<forall>j \<in> {1..<2::int}. attempt_fails flaky_env (daily_feed flaky_env) (items flaky_env) j"
  proof
    fix j :: int assume "j \<in> {1..<2}"
    then have "j = 1" by simp
    then show "attempt_fails flaky_env (daily_feed flaky_env) (items flaky_env) j"
      by (simp add: attempt_fails_def flaky_env_def sample_env_def rx_match_pattern)
  qed
  have second: "client flaky_env 2 (build_prompt (daily_feed flaky_env) (items flaky_env))
      = Inr sample_answer"
    "json_loads flaky_env sample_object = Inr sample_conversation"
    by (simp_all add: flaky_env_def sample_env_def sample_loads_def)
  have only: "client sample_env 1 (build_prompt (daily_feed sample_env) (items sample_env))
      = Inr sample_answer"
    "json_loads sample_env sample_object = Inr sample_conversation"
    by (simp_all add: sample_env_def sample_loads_def)
  from extract_conversation_returns_parsed_object
         [of 2 3 flaky_env "daily_feed flaky_env" "items flaky_env" sample_answer sample_object
             sample_conversation empty_world]
       before second sample_search
  have retried: "extract_conversation flaky_env (daily_feed flaky_env) (items flaky_env) 3 empty_world
     = (Inr sample_conversation,
        empty_world\<lparr>trace := trace empty_world
          @ retry_trace (build_prompt (daily_feed flaky_env) (items flaky_env)) [1..2]\<rparr>)"
    by simp
  from extract_conversation_returns_parsed_object
         [of 1 3 sample_env "daily_feed sample_env" "items sample_env" sample_answer sample_object
             sample_conversation empty_world]
       only sample_search
  have single: "cf_extract_conversation sample_env (daily_feed sample_env) (items sample_env) empty_world
     = (Inr sample_conversation,
        empty_world\<lparr>trace := trace empty_world
          @ [Completion 1 (build_prompt (daily_feed sample_env) (items sample_env))]\<rparr>)"
    by simp
  from retried single show ?thesis
    by (simp add: range empty_world_def)
qed

text \<open>
  The claim as stated fails on the sample answer: the generator returns the object with
  the key \<open>conversation\<close>, and the list of lines is the field of that object, a different
  value.
\<close>

theorem extract_conversation_returns_whole_object:
  "fst (extract_conversation sample_env (daily_feed sample_env) (items sample_env) 3 empty_world)
     = Inr sample_conversation
   \<and> py_getitem sample_conversation ''conversation''
     = Inr (JArray [JObject [(''speaker'', JString ''Brian''), (''text'', JString ''Hi'')],
                    JObject [(''speaker'', JString ''Jenny''), (''text'', JString ''Hello'')]])
   \<and> sample_conversation
     \<noteq> JArray [JObject [(''speaker'', JString ''Brian''), (''text'', JString ''Hi'')],
                JObject [(''speaker'', JString ''Jenny''), (''text'', JString ''Hello'')]]"
  by (simp add: sample_extract) (simp add: sample_conversation_def)

section \<open>Conversation generator: extraction from prose\<close>

text \<open>
  C4, as the code has it. If the answer of the endpoint is brace-free prose, then one
  brace-balanced object with at most one level of nesting, then any text, the search
  returns exactly that object, and the attempt yields what \<open>json.loads\<close> yields for the
  object itself (the same value, or the same error); the same holds for the single request
  of \<open>cloudflare_app.py\<close>.
\<close>

theorem extraction_of_one_level_object:
  assumes "brace_free pre" and "one_level_object obj"
    and "client e k (build_prompt feed its) = Inr (pre @ obj @ post)"
  shows "re_search pattern (pre @ obj @ post) = Some obj
         \<and> fst (attempt_body e feed its k w) = json_loads e obj
         \<and> (k = 1 \<longrightarrow> fst (cf_extract_conversation e feed its w) = json_loads e obj)"
  using assms
  by (auto simp: re_search_found attempt_body_result cf_extract_conversation_eq)

theorem extraction_of_one_level_object_witness:
  "re_search pattern (''Sure! '' @ sample_object @ '' Enjoy.'') = Some sample_object
   \<and> fst (attempt_body sample_env (daily_feed sample_env) (items sample_env) 1 empty_world)
       = json_loads sample_env sample_object
   \<and> fst (cf_extract_conversation sample_env (daily_feed sample_env) (items sample_env) empty_world)
       = json_loads sample_env sample_object"
proof -
  have "brace_free ''Sure! ''"
    by (simp add: brace_free_def is_brace_def)
  moreover have "one_level_object sample_object"
    by (simp add: one_level_object_def sample_object_def)
  moreover have "client sample_env 1 (build_prompt (daily_feed sample_env) (items sample_env))
      = Inr (''Sure! '' @ sample_object @ '' Enjoy.'')"
    by (simp add: sample_env_def sample_answer_def)
  ultimately show ?thesis
    using extraction_of_one_level_object [of "''Sure! ''" sample_object sample_env 1
        "daily_feed sample_env" "items sample_env" "'' Enjoy.''" empty_world]
    by simp
qed

text \<open>
  The claim as stated fails for an answer that is one balanced JSON object nested three
  deep and nothing else: the pattern cannot match from the first brace, the search moves
  on and returns the object inside, and the attempt yields the value of that inner object
  instead of the value of the answer.
\<close>

lemma deep_search: "re_search pattern deep_object = Some ''{\"b\": {\"c\": 1}}''"
  by (simp add: deep_object_def rx_match_pattern object_rest_open object_rest_close
      object_rest_plain inner_rest_Cons is_brace_def object_rest_Nil inner_rest_Nil)

theorem extraction_of_deep_object:
  "client deep_env 1 (build_prompt (daily_feed deep_env) (items deep_env)) = Inr deep_object
   \<and> fst (attempt_body deep_env (daily_feed deep_env) (items deep_env) 1 empty_world)
       = Inr (JObject [(''b'', JObject [(''c'', JInt 1)])])
   \<and> json_loads deep_env deep_object
       = Inr (JObject [(''a'', JObject [(''b'', JObject [(''c'', JInt 1)])])])
   \<and> fst (attempt_body deep_env (daily_feed deep_env) (items deep_env) 1 empty_world)
       \<noteq> json_loads deep_env deep_object"
  by (simp add: attempt_body_result deep_env_def sample_env_def deep_search deep_loads_def)
     (simp add: deep_object_def)

section \<open>Audio merger: the order of the clips\<close>

lemma merge_loop_concat:
  assumes "list_all2 (readable_clip e fs) audio_files clips"
  shows "merge_loop e fs audio_files combined = Inr (combined @ concat clips)"
  using assms
proof (induction audio_files clips arbitrary: combined rule: list_all2_induct)
  case Nil
  then show ?case by simp
next
  case (Cons name audio_files clip clips)
  from Cons.hyps(1) obtain bytes where "fs name = Some bytes" "from_file e bytes = Inr clip"
    by (auto simp: readable_clip_def split: option.splits)
  then show ?case by (simp add: Cons.IH)
qed

text \<open>
  C7. If every file of the list is a readable clip, the merge loop builds the clips'
  frames concatenated in the order of the list, with nothing in between, and the merger
  writes the encoding of exactly that sequence to the output file (when the encoder
  succeeds). For three clips A, B, C the track is A, then B, then C; for a single clip it
  is that clip.
\<close>

theorem merge_audio_files_in_order:
  assumes "list_all2 (readable_clip e (files w)) audio_files clips"
  shows "merge_loop e (files w) audio_files [] = Inr (concat clips)
         \<and> (\<forall>bytes. export e (concat clips) = Inr bytes \<longrightarrow>
               merge_audio_files e audio_files output_file w
                 = (Inr (), w\<lparr>files := (files w)(output_file \<mapsto> bytes)\<rparr>))"
  using merge_loop_concat [OF assms, of "[]"]
  by (simp add: merge_audio_files_def save_to_file_def)

theorem merge_audio_files_in_order_witness:
  "merge_loop sample_env (files clips_world) [''audio_0.mp3'', ''audio_1.mp3'', ''audio_2.mp3''] []
     = Inr ([1] @ [2] @ [3])
   \<and> merge_loop sample_env (files clips_world) [''audio_1.mp3''] [] = Inr [2]
   \<and> merge_audio_files sample_env [''audio_0.mp3'', ''audio_1.mp3'', ''audio_2.mp3''] PODCAST_FILE clips_world
     = (Inr (), clips_world\<lparr>files := (files clips_world)(PODCAST_FILE \<mapsto> ''###'')\<rparr>)"
proof -
  have three: "list_all2 (readable_clip sample_env (files clips_world))
          [''audio_0.mp3'', ''audio_1.mp3'', ''audio_2.mp3''] [[1], [2], [3]]"
    by (simp add: readable_clip_def clips_world_def sample_env_def)
  have one: "list_all2 (readable_clip sample_env (files clips_world)) [''audio_1.mp3''] [[2]]"
    by (simp add: readable_clip_def clips_world_def sample_env_def)
  have enc: "export sample_env (concat [[1], [2], [3]]) = Inr ''###''"
    by (simp add: sample_env_def)
  show ?thesis
    using merge_audio_files_in_order [OF three, of PODCAST_FILE]
      merge_audio_files_in_order [OF one, of PODCAST_FILE] enc
    by simp
qed

section \<open>Audio synthesizer: voices and clip names\<close>

lemma audio_loop_lines:
  assumes "list_all2 (\<lambda>item (speaker, text). dialogue_line item speaker text) lines spoken"
  shows "audio_loop i lines tasks audio_files =
           Inr (tasks @ map (\<lambda>(j, speaker, text). (text, select_voice speaker, clip_name j))
                          (enumerate i spoken),
                audio_files @ map (\<lambda>(j, speaker, text). clip_name j) (enumerate i spoken))"
  using assms
proof (induction lines spoken arbitrary: i tasks audio_files rule: list_all2_induct)
  case Nil
  then show ?case by simp
next
  case (Cons item lines line spoken)
  obtain speaker said where line: "line = (speaker, said)" by (cases line)
  with Cons.hyps(1) have "py_getitem item ''speaker'' = Inr speaker"
    and "py_getitem item ''text'' = Inr said"
    by (simp_all add: dialogue_line_def)
  then show ?case
    by (simp add: Cons.IH line clip_name_def Let_def)
qed


lemma enumerate_names:
  "map (\<lambda>(j, speaker, text). clip_name j) (enumerate 0 spoken) = map clip_name [0..<length spoken]"
proof -
  have "map (\<lambda>(j, speaker, text). clip_name j) (enumerate 0 spoken)
        = map clip_name (map fst (enumerate 0 spoken))"
    unfolding map_map by (rule map_cong) auto
  also have "map fst (enumerate 0 spoken) = [0..<length spoken]"
    by (simp only: map_fst_enumerate add_0)
  finally show ?thesis .
qed

lemma digit_inj:
  assumes "a < 10" "b < 10" "''0123456789'' ! a = ''0123456789'' ! b"
  shows "a = b"
proof -
  have "distinct ''0123456789''" by simp
  moreover have "a < length ''0123456789''" "b < length ''0123456789''" using assms by simp_all
  ultimately show ?thesis using assms(3) by (simp only: nth_eq_iff_index_eq)
qed

lemma str_nat_nonempty: "str_nat n \<noteq> []"
  by (subst str_nat.simps) simp

lemma str_nat_inj: "str_nat n = str_nat m \<Longrightarrow> n = m"
proof (induction n arbitrary: m rule: str_nat.induct)
  case (1 n)
  show ?case
  proof (cases "n < 10")
    case True
    then have n: "str_nat n = [''0123456789'' ! n]" by (subst str_nat.simps) simp
    show ?thesis
    proof (cases "m < 10")
      case m: True
      then have "str_nat m = [''0123456789'' ! m]" by (subst str_nat.simps) simp
      with n "1.prems" have "''0123456789'' ! n = ''0123456789'' ! m" by simp
      with True m show ?thesis by (intro digit_inj)
    next
      case False
      then have "str_nat m = str_nat (m div 10) @ [''0123456789'' ! (m mod 10)]"
        by (subst str_nat.simps) simp
      with n "1.prems" have "str_nat (m div 10) = []" by simp
      then show ?thesis by (simp add: str_nat_nonempty)
    qed
  next
    case False
    then have n: "str_nat n = str_nat (n div 10) @ [''0123456789'' ! (n mod 10)]"
      by (subst str_nat.simps) simp
    show ?thesis
    proof (cases "m < 10")
      case True
      then have "str_nat m = [''0123456789'' ! m]" by (subst str_nat.simps) simp
      with n "1.prems" have "str_nat (n div 10) = []" by simp
      then show ?thesis by (simp add: str_nat_nonempty)
    next
      case m: False
      then have "str_nat m = str_nat (m div 10) @ [''0123456789'' ! (m mod 10)]"
        by (subst str_nat.simps) simp
      with n "1.prems" have front: "str_nat (n div 10) = str_nat (m div 10)"
        and units: "''0123456789'' ! (n mod 10) = ''0123456789'' ! (m mod 10)"
        by simp_all
      from front have "n div 10 = m div 10"
        using False by (intro "1.IH") simp_all
      moreover have "n mod 10 = m mod 10"
        using units by (intro digit_inj) simp_all
      ultimately show ?thesis
        by (metis div_mult_mod_eq)
    qed
  qed
qed

lemma clip_name_inj: "clip_name i = clip_name j \<Longrightarrow> i = j"
  by (simp add: clip_name_def str_nat_inj)

lemma save_clips_written:
  assumes "distinct (map (\<lambda>t. snd (snd t)) tasks)" and "save_clips e i tasks fs = Inr fs'"
  shows "(\<forall>j < length tasks. \<exists>bytes.
            tts_save e (i + j) (fst (tasks ! j)) (fst (snd (tasks ! j))) = Inr bytes
            \<and> fs' (snd (snd (tasks ! j))) = Some bytes)
         \<and> (\<forall>name. name \<notin> set (map (\<lambda>t. snd (snd t)) tasks) \<longrightarrow> fs' name = fs name)"
  using assms
proof (induction tasks arbitrary: i fs)
  case Nil
  then show ?case by simp
next
  case (Cons t tasks)
  obtain said voice out where t: "t = (said, voice, out)" by (cases t) auto
  with Cons.prems(2) obtain bytes where bytes: "tts_save e i said voice = Inr bytes"
    and rest: "save_clips e (Suc i) tasks (fs(out \<mapsto> bytes)) = Inr fs'"
    by (auto split: sum.splits)
  from Cons.prems(1) t have fresh: "out \<notin> set (map (\<lambda>t. snd (snd t)) tasks)"
    and dist: "distinct (map (\<lambda>t. snd (snd t)) tasks)"
    by simp_all
  from Cons.IH [OF dist rest] have
    later: "\<forall>j < length tasks. \<exists>bytes.
            tts_save e (Suc i + j) (fst (tasks ! j)) (fst (snd (tasks ! j))) = Inr bytes
            \<and> fs' (snd (snd (tasks ! j))) = Some bytes"
    and other: "\<forall>name. name \<notin> set (map (\<lambda>t. snd (snd t)) tasks) \<longrightarrow> fs' name = (fs(out \<mapsto> bytes)) name"
    by blast+
  from other fresh have head: "fs' out = Some bytes" by simp
  show ?case
  proof (intro conjI allI impI)
    fix j assume "j < length (t # tasks)"
    then show "\<exists>bytes. tts_save e (i + j) (fst ((t # tasks) ! j)) (fst (snd ((t # tasks) ! j))) = Inr bytes
            \<and> fs' (snd (snd ((t # tasks) ! j))) = Some bytes"
      using later head bytes t by (cases j) auto
  next
    fix name assume "name \<notin> set (map (\<lambda>t. snd (snd t)) (t # tasks))"
    then show "fs' name = fs name"
      using other t by auto
  qed
qed


lemma line_tasks_nth:
  assumes "i < length spoken"
  shows "map (\<lambda>(j, speaker, text). (text, select_voice speaker, clip_name j)) (enumerate 0 spoken) ! i
         = (snd (spoken ! i), select_voice (fst (spoken ! i)), clip_name i)"
  using assms by (simp add: nth_enumerate_eq case_prod_unfold)

lemma line_tasks_outputs:
  "map (\<lambda>t. snd (snd t))
     (map (\<lambda>(j, speaker, text). (text, select_voice speaker, clip_name j)) (enumerate 0 spoken))
   = map clip_name [0..<length spoken]"
proof -
  have "map (\<lambda>t. snd (snd t))
     (map (\<lambda>(j, speaker, text). (text, select_voice speaker, clip_name j)) (enumerate 0 spoken))
     = map (\<lambda>(j, speaker, text). clip_name j) (enumerate 0 spoken)"
    unfolding map_map by (rule map_cong) auto
  then show ?thesis by (simp only: enumerate_names)
qed

lemma generate_audio_parallel_success:
  assumes conv: "py_getitem conversation ''conversation'' = Inr turns" "py_iter turns = Inr lines"
    and lines: "list_all2 (\<lambda>item (speaker, text). dialogue_line item speaker text) lines spoken"
    and run: "generate_audio_parallel e conversation w = (Inr audio_files, w')"
  shows "audio_files = map clip_name [0..<length lines]
         \<and> (\<forall>i < length lines. \<exists>bytes.
               tts_save e i (snd (spoken ! i)) (select_voice (fst (spoken ! i))) = Inr bytes
               \<and> files w' (audio_files ! i) = Some bytes)"
proof -
  define tasks where
    "tasks = map (\<lambda>(j, speaker, text). (text, select_voice speaker, clip_name j)) (enumerate 0 spoken)"
  have len: "length spoken = length lines"
    using lines by (simp add: list_all2_lengthD)
  have loop: "audio_loop 0 lines [] [] = Inr (tasks, map clip_name [0..<length lines])"
    using audio_loop_lines [OF lines, of 0 "[]" "[]"] len
    by (simp add: enumerate_names tasks_def)
  with conv run have names: "audio_files = map clip_name [0..<length lines]"
    and "fst (gather e tasks w) = Inr ()" and w': "w' = snd (gather e tasks w)"
    by (auto simp: generate_audio_parallel_def split: prod.splits sum.splits)
  then obtain fs' where saved: "save_clips e 0 tasks (files w) = Inr fs'" and fs': "files w' = fs'"
    by (auto simp: gather_def split: sum.splits)
  have outs: "map (\<lambda>t. snd (snd t)) tasks = map clip_name [0..<length spoken]"
    unfolding tasks_def by (rule line_tasks_outputs)
  have "inj_on clip_name (set [0..<length spoken])"
    by (auto intro: inj_onI dest: clip_name_inj)
  then have "distinct (map (\<lambda>t. snd (snd t)) tasks)"
    unfolding outs by (simp add: distinct_map)
  from save_clips_written [OF this saved] have written:
    "\<forall>j < length tasks. \<exists>bytes.
            tts_save e (0 + j) (fst (tasks ! j)) (fst (snd (tasks ! j))) = Inr bytes
            \<and> fs' (snd (snd (tasks ! j))) = Some bytes"
    by blast
  have "\<exists>bytes. tts_save e i (snd (spoken ! i)) (select_voice (fst (spoken ! i))) = Inr bytes
               \<and> files w' (audio_files ! i) = Some bytes" if "i < length lines" for i
  proof -
    from that len have i: "i < length spoken" by simp
    then have "tasks ! i = (snd (spoken ! i), select_voice (fst (spoken ! i)), clip_name i)"
      unfolding tasks_def by (rule line_tasks_nth)
    moreover have "i < length tasks" using i by (simp add: tasks_def)
    ultimately show ?thesis
      using written that names fs' by auto
  qed
  with names show ?thesis by blast
qed


lemma clip_names: "clip_name 0 = ''audio_0.mp3''" "clip_name 1 = ''audio_1.mp3''"
  "clip_name 2 = ''audio_2.mp3''"
  by (simp_all add: clip_name_def str_nat.simps)

lemma sample_audio:
  "generate_audio_parallel sample_env sample_conversation empty_world
     = (Inr [''audio_0.mp3'', ''audio_1.mp3''],
        empty_world\<lparr>files := [''audio_0.mp3'' \<mapsto> ''en-GB-RyanNeural'',
                                 ''audio_1.mp3'' \<mapsto> ''en-US-AvaMultilingualNeural'']\<rparr>)"
  by (simp add: generate_audio_parallel_def sample_conversation_def gather_def sample_env_def
      select_voice_def empty_world_def str_nat.simps Let_def)

text \<open>
  C10. The voice of a line is en-GB-RyanNeural exactly when its speaker is the string
  Brian, and en-US-AvaMultilingualNeural for every other speaker value; selecting never
  fails. For lines that each have a speaker and a text, the loop builds one task per line,
  in order, with the line's text, the voice of its speaker and the file name
  \<open>audio_i.mp3\<close> of its index, and returns these names in the same order; after a
  successful fan-out the \<open>i\<close>-th returned file holds what the speech service produced for
  the text and voice of line \<open>i\<close>.
\<close>

theorem voice_selection_and_alignment:
  "(select_voice speaker = ''en-GB-RyanNeural'' \<longleftrightarrow> speaker = JString ''Brian'')
   \<and> (speaker \<noteq> JString ''Brian'' \<longrightarrow> select_voice speaker = ''en-US-AvaMultilingualNeural'')
   \<and> (list_all2 (\<lambda>item (speaker, text). dialogue_line item speaker text) lines spoken \<longrightarrow>
        audio_loop 0 lines [] [] =
          Inr (map (\<lambda>(i, speaker, text). (text, select_voice speaker, clip_name i))
                 (enumerate 0 spoken),
               map clip_name [0..<length lines]))
   \<and> (py_getitem conversation ''conversation'' = Inr turns \<and> py_iter turns = Inr lines
        \<and> list_all2 (\<lambda>item (speaker, text). dialogue_line item speaker text) lines spoken
        \<and> generate_audio_parallel e conversation w = (Inr audio_files, w') \<longrightarrow>
        audio_files = map clip_name [0..<length lines]
        \<and> (\<forall>i < length lines. \<exists>bytes.
              tts_save e i (snd (spoken ! i)) (select_voice (fst (spoken ! i))) = Inr bytes
              \<and> files w' (audio_files ! i) = Some bytes))"
proof (intro conjI impI; (elim conjE)?)
  show "select_voice speaker = ''en-GB-RyanNeural'' \<longleftrightarrow> speaker = JString ''Brian''"
    by (simp add: select_voice_def)
  show "select_voice speaker = ''en-US-AvaMultilingualNeural''" if "speaker \<noteq> JString ''Brian''"
    using that by (simp add: select_voice_def)
  show "audio_loop 0 lines [] [] =
          Inr (map (\<lambda>(i, speaker, text). (text, select_voice speaker, clip_name i))
                 (enumerate 0 spoken),
               map clip_name [0..<length lines])"
    if "list_all2 (\<lambda>item (speaker, text). dialogue_line item speaker text) lines spoken"
    using audio_loop_lines [OF that, of 0 "[]" "[]"] list_all2_lengthD [OF that]
    by (simp add: enumerate_names)
  assume run: "py_getitem conversation ''conversation'' = Inr turns" "py_iter turns = Inr lines"
    "list_all2 (\<lambda>item (speaker, text). dialogue_line item speaker text) lines spoken"
    "generate_audio_parallel e conversation w = (Inr audio_files, w')"
  from generate_audio_parallel_success [OF run]
  show "audio_files = map clip_name [0..<length lines]"
    and "\<forall>i < length lines. \<exists>bytes.
              tts_save e i (snd (spoken ! i)) (select_voice (fst (spoken ! i))) = Inr bytes
              \<and> files w' (audio_files ! i) = Some bytes"
    by blast+
qed

theorem voice_selection_and_alignment_witness:
  "select_voice (JString ''brian'') = ''en-US-AvaMultilingualNeural''
   \<and> audio_loop 0 guest_lines [] [] =
       Inr ([(JString ''Hi'', ''en-GB-RyanNeural'', ''audio_0.mp3''),
             (JString ''Hello'', ''en-US-AvaMultilingualNeural'', ''audio_1.mp3''),
             (JString ''Hey'', ''en-US-AvaMultilingualNeural'', ''audio_2.mp3'')],
            [''audio_0.mp3'', ''audio_1.mp3'', ''audio_2.mp3''])
   \<and> files (snd (generate_audio_parallel sample_env
                      (JObject [(''conversation'', JArray guest_lines)]) empty_world))
         ''audio_0.mp3'' = Some ''en-GB-RyanNeural''
   \<and> files (snd (generate_audio_parallel sample_env
                      (JObject [(''conversation'', JArray guest_lines)]) empty_world))
         ''audio_2.mp3'' = Some ''en-US-AvaMultilingualNeural''"
proof -
  define conversation where "conversation = JObject [(''conversation'', JArray guest_lines)]"
  define w' where "w' = snd (generate_audio_parallel sample_env conversation empty_world)"
  have lines: "list_all2 (\<lambda>item (speaker, text). dialogue_line item speaker text)
                 guest_lines guest_spoken"
    by (simp add: guest_lines_def guest_spoken_def dialogue_line_def)
  have conv: "py_getitem conversation ''conversation'' = Inr (JArray guest_lines)"
    "py_iter (JArray guest_lines) = Inr guest_lines"
    by (simp_all add: conversation_def)
  have "fst (generate_audio_parallel sample_env conversation empty_world)
          = Inr [''audio_0.mp3'', ''audio_1.mp3'', ''audio_2.mp3'']"
    by (simp add: generate_audio_parallel_def conversation_def guest_lines_def gather_def
        sample_env_def str_nat.simps Let_def)
  then have run: "generate_audio_parallel sample_env conversation empty_world
          = (Inr [''audio_0.mp3'', ''audio_1.mp3'', ''audio_2.mp3''], w')"
    by (simp add: w'_def prod_eq_iff)
  note at_guest = voice_selection_and_alignment [of "JString ''brian''" guest_lines guest_spoken
        conversation "JArray guest_lines" sample_env empty_world
        "[''audio_0.mp3'', ''audio_1.mp3'', ''audio_2.mp3'']" w']
  from at_guest have voice: "select_voice (JString ''brian'') = ''en-US-AvaMultilingualNeural''"
    by simp
  from at_guest lines have "audio_loop 0 guest_lines [] [] =
          Inr (map (\<lambda>(i, speaker, text). (text, select_voice speaker, clip_name i))
                 (enumerate 0 guest_spoken),
               map clip_name [0..<length guest_lines])"
    by blast
  moreover have "[0..<length guest_lines] = [0, Suc 0, Suc (Suc 0)]"
    by (simp add: guest_lines_def upt_rec)
  ultimately have loop: "audio_loop 0 guest_lines [] [] =
       Inr ([(JString ''Hi'', ''en-GB-RyanNeural'', ''audio_0.mp3''),
             (JString ''Hello'', ''en-US-AvaMultilingualNeural'', ''audio_1.mp3''),
             (JString ''Hey'', ''en-US-AvaMultilingualNeural'', ''audio_2.mp3'')],
            [''audio_0.mp3'', ''audio_1.mp3'', ''audio_2.mp3''])"
    by (simp add: guest_spoken_def select_voice_def clip_name_def str_nat.simps)
  from at_guest lines conv run have aligned: "\<forall>i < length guest_lines. \<exists>bytes.
         tts_save sample_env i (snd (guest_spoken ! i)) (select_voice (fst (guest_spoken ! i)))
           = Inr bytes
         \<and> files w' ([''audio_0.mp3'', ''audio_1.mp3'', ''audio_2.mp3''] ! i) = Some bytes"
    by blast
  have len: "0 < length guest_lines" "2 < length guest_lines"
    by (simp_all add: guest_lines_def)
  from aligned [rule_format, OF len(1)] have "\<exists>bytes.
         tts_save sample_env 0 (snd (guest_spoken ! 0)) (select_voice (fst (guest_spoken ! 0)))
           = Inr bytes
         \<and> files w' ([''audio_0.mp3'', ''audio_1.mp3'', ''audio_2.mp3''] ! 0) = Some bytes" .
  then have first: "files w' ''audio_0.mp3'' = Some ''en-GB-RyanNeural''"
    by (auto simp: sample_env_def guest_spoken_def select_voice_def)
  from aligned [rule_format, OF len(2)] have "\<exists>bytes.
         tts_save sample_env 2 (snd (guest_spoken ! 2)) (select_voice (fst (guest_spoken ! 2)))
           = Inr bytes
         \<and> files w' ([''audio_0.mp3'', ''audio_1.mp3'', ''audio_2.mp3''] ! 2) = Some bytes" .
  then have third: "files w' ''audio_2.mp3'' = Some ''en-US-AvaMultilingualNeural''"
    by (auto simp: sample_env_def guest_spoken_def select_voice_def)
  from voice loop first third show ?thesis
    unfolding w'_def conversation_def by blast
qed

section \<open>Run gate and persistence: what a run touches\<close>

lemma generation_cycle_local:
  "generation_cycle e w =
     local_run e (extract_conversation e (daily_feed e) (items e) 3 w)
       CONVERSATION_FILE SHOW_NOTES_FILE PODCAST_FILE"
  by (simp add: generation_cycle_def local_run_def PODCAST_FILE_def)


lemma clip_name_like: "clip_like (clip_name i)"
  by (simp add: clip_like_def clip_name_def)

lemma attempts_loop_frame:
  "attempts_loop e feed its n ks w = (r, w') \<Longrightarrow>
     files w' = files w \<and> bucket w' = bucket w \<and> (\<exists>evs. trace w' = trace w @ evs)"
proof (induction ks arbitrary: w)
  case Nil
  then show ?case by simp
next
  case (Cons k ks)
  obtain r1 where body: "attempt_body e feed its k w
      = (r1, w\<lparr>trace := trace w @ [Completion k (build_prompt feed its)]\<rparr>)"
    using attempt_body_world [of e feed its k w] by (cases "attempt_body e feed its k w") simp
  show ?case
  proof (cases "isl r1 \<and> k < n")
    case True
    with body Cons.prems have "attempts_loop e feed its n ks
        (w\<lparr>trace := trace w @ [Completion k (build_prompt feed its), Sleep 2]\<rparr>) = (r, w')"
      by (auto simp: isl_def)
    from Cons.IH [OF this] show ?thesis by auto
  next
    case False
    with body Cons.prems have "w' = w\<lparr>trace := trace w @ [Completion k (build_prompt feed its)]\<rparr>"
      by (cases r1) (auto split: if_splits)
    then show ?thesis by simp
  qed
qed

lemma extract_conversation_frame:
  "extract_conversation e feed its n w = (r, w') \<Longrightarrow>
     files w' = files w \<and> bucket w' = bucket w \<and> (\<exists>evs. trace w' = trace w @ evs)"
  unfolding extract_conversation_def by (rule attempts_loop_frame)

lemma extract_conversation_requests:
  assumes "extract_conversation e feed its 3 w = (r, w')"
  shows "\<exists>evs. trace w' = trace w @ Completion 1 (build_prompt feed its) # evs"
proof -
  have range: "[1..3::int] = 1 # [2, 3]" by (simp add: upto_rec1)
  obtain r1 where body: "attempt_body e feed its 1 w
      = (r1, w\<lparr>trace := trace w @ [Completion 1 (build_prompt feed its)]\<rparr>)"
    using attempt_body_world [of e feed its 1 w] by (cases "attempt_body e feed its 1 w") simp
  show ?thesis
  proof (cases r1)
    case (Inr v)
    with assms body show ?thesis
      by (auto simp: extract_conversation_def range)
  next
    case (Inl x)
    with assms body have "attempts_loop e feed its 3 [2, 3]
        (w\<lparr>trace := trace w @ [Completion 1 (build_prompt feed its), Sleep 2]\<rparr>) = (r, w')"
      by (simp add: extract_conversation_def range)
    from attempts_loop_frame [OF this] show ?thesis by auto
  qed
qed


lemma audio_loop_outputs:
  assumes "audio_loop i lines tasks audio_files = Inr (tasks', audio_files')"
    and "\<forall>t \<in> set tasks. clip_like (snd (snd t))" and "\<forall>name \<in> set audio_files. clip_like name"
  shows "(\<forall>t \<in> set tasks'. clip_like (snd (snd t))) \<and> (\<forall>name \<in> set audio_files'. clip_like name)"
  using assms
proof (induction lines arbitrary: i tasks audio_files)
  case Nil
  then show ?case by simp
next
  case (Cons item lines)
  from Cons.prems(1) obtain said speaker where step:
    "audio_loop (Suc i) lines (tasks @ [(said, select_voice speaker, clip_name i)])
        (audio_files @ [clip_name i]) = Inr (tasks', audio_files')"
    by (auto simp: Let_def clip_name_def split: sum.splits)
  have "\<forall>t \<in> set (tasks @ [(said, select_voice speaker, clip_name i)]). clip_like (snd (snd t))"
    using Cons.prems(2) by (auto simp: clip_name_like)
  moreover have "\<forall>name \<in> set (audio_files @ [clip_name i]). clip_like name"
    using Cons.prems(3) by (auto simp: clip_name_like)
  ultimately show ?case
    by (rule Cons.IH [OF step])
qed

lemma save_clips_frame:
  assumes "save_clips e i tasks fs = Inr fs'" and "\<forall>t \<in> set tasks. clip_like (snd (snd t))"
    and "\<not> clip_like name"
  shows "fs' name = fs name"
  using assms
proof (induction tasks arbitrary: i fs)
  case Nil
  then show ?case by simp
next
  case (Cons t tasks)
  obtain said voice out where t: "t = (said, voice, out)" by (cases t) auto
  with Cons.prems(1) obtain bytes where
    rest: "save_clips e (Suc i) tasks (fs(out \<mapsto> bytes)) = Inr fs'"
    by (auto split: sum.splits)
  from Cons.prems(2,3) t have "out \<noteq> name" by auto
  moreover have "fs' name = (fs(out \<mapsto> bytes)) name"
    using Cons.prems(2,3) by (intro Cons.IH [OF rest]) auto
  ultimately show ?case by simp
qed

lemma leftover_clips_frame:
  assumes "\<forall>t \<in> set tasks. clip_like (snd (snd t))" and "\<not> clip_like name"
  shows "leftover_clips e i tasks fs name = fs name"
  using assms
proof (induction tasks arbitrary: i fs)
  case Nil
  then show ?case by simp
next
  case (Cons t tasks)
  obtain said voice out where t: "t = (said, voice, out)" by (cases t) auto
  from Cons.prems t have "out \<noteq> name" by auto
  then have "(case tts_leftover e i of None \<Rightarrow> fs | Some bytes \<Rightarrow> fs(out \<mapsto> bytes)) name = fs name"
    by (simp split: option.splits)
  moreover have "leftover_clips e (Suc i) tasks
      (case tts_leftover e i of None \<Rightarrow> fs | Some bytes \<Rightarrow> fs(out \<mapsto> bytes)) name
    = (case tts_leftover e i of None \<Rightarrow> fs | Some bytes \<Rightarrow> fs(out \<mapsto> bytes)) name"
    using Cons.prems by (intro Cons.IH) auto
  ultimately show ?case by (simp add: t)
qed

lemma generate_audio_parallel_frame:
  assumes "generate_audio_parallel e conversation w = (r, w')"
  shows "trace w' = trace w \<and> bucket w' = bucket w
         \<and> (\<forall>name. \<not> clip_like name \<longrightarrow> files w' name = files w name)
         \<and> (\<forall>audio_files. r = Inr audio_files \<longrightarrow> (\<forall>name \<in> set audio_files. clip_like name))"
proof (cases "\<exists>turns lines tasks audio_files. py_getitem conversation ''conversation'' = Inr turns
          \<and> py_iter turns = Inr lines \<and> audio_loop 0 lines [] [] = Inr (tasks, audio_files)")
  case False
  with assms have "w' = w" and "isl r"
    by (auto simp: generate_audio_parallel_def split: sum.splits prod.splits)
  then show ?thesis by (auto simp: isl_def)
next
  case True
  then obtain turns lines tasks audio_files where built:
    "py_getitem conversation ''conversation'' = Inr turns" "py_iter turns = Inr lines"
    "audio_loop 0 lines [] [] = Inr (tasks, audio_files)"
    by blast
  from audio_loop_outputs [OF built(3)] have outs: "\<forall>t \<in> set tasks. clip_like (snd (snd t))"
    and names: "\<forall>name \<in> set audio_files. clip_like name"
    by simp_all
  show ?thesis
  proof (cases "save_clips e 0 tasks (files w)")
    case (Inr fs')
    with assms built have "w' = w\<lparr>files := fs'\<rparr>" and "r = Inr audio_files"
      by (simp_all add: generate_audio_parallel_def gather_def)
    with names save_clips_frame [OF Inr outs] show ?thesis by simp
  next
    case (Inl x)
    with assms built have "w' = w\<lparr>files := leftover_clips e 0 tasks (files w)\<rparr>" and "r = Inl x"
      by (simp_all add: generate_audio_parallel_def gather_def)
    with leftover_clips_frame [OF outs] show ?thesis by simp
  qed
qed


lemma save_clips_outcome:
  "map_sum id (\<lambda>fs'. ()) (save_clips e i tasks fs) = map_sum id (\<lambda>fs'. ()) (save_clips e i tasks fs0)"
proof (induction tasks arbitrary: i fs fs0)
  case Nil
  then show ?case by simp
next
  case (Cons t tasks)
  obtain said voice out where t: "t = (said, voice, out)" by (cases t) auto
  show ?case
  proof (cases "tts_save e i said voice")
    case (Inl x)
    with t show ?thesis by simp
  next
    case (Inr bytes)
    have "map_sum id (\<lambda>fs'. ()) (save_clips e (Suc i) tasks (fs(out \<mapsto> bytes)))
        = map_sum id (\<lambda>fs'. ()) (save_clips e (Suc i) tasks (fs0(out \<mapsto> bytes)))"
      by (rule Cons.IH)
    then show ?thesis
      unfolding t using Inr by (simp only: save_clips.simps sum.case)
  qed
qed

lemma generate_audio_parallel_outcome:
  "fst (generate_audio_parallel e conversation w) = fst (generate_audio_parallel e conversation w0)"
proof -
  have gathered: "fst (gather e tasks w) = fst (gather e tasks w0)" for tasks
    using save_clips_outcome [of e 0 tasks "files w" "files w0"]
    by (cases "save_clips e 0 tasks (files w)"; cases "save_clips e 0 tasks (files w0)")
       (simp_all add: gather_def)
  have same: "fst (case gather e tasks w of
                    (Inl x, w') \<Rightarrow> (Inl x, w') | (Inr u, w') \<Rightarrow> (Inr audio_files, w'))
        = fst (case gather e tasks w0 of
                    (Inl x, w') \<Rightarrow> (Inl x, w') | (Inr u, w') \<Rightarrow> (Inr audio_files, w'))"
    for tasks and audio_files :: "string list"
  proof -
    obtain r1 w1 r2 w2 where g: "gather e tasks w = (r1, w1)" "gather e tasks w0 = (r2, w2)"
      by (cases "gather e tasks w"; cases "gather e tasks w0") auto
    with gathered [of tasks] have "r1 = r2" by simp
    with g show ?thesis by (cases r2) simp_all
  qed
  show ?thesis
  proof (cases "py_getitem conversation ''conversation''")
    case (Inl x)
    then show ?thesis by (simp add: generate_audio_parallel_def)
  next
    case turns: (Inr turns)
    show ?thesis
    proof (cases "py_iter turns")
      case (Inl x)
      with turns show ?thesis by (simp add: generate_audio_parallel_def)
    next
      case lines: (Inr lines)
      show ?thesis
      proof (cases "audio_loop 0 lines [] []")
        case (Inl x)
        with turns lines show ?thesis by (simp add: generate_audio_parallel_def)
      next
        case (Inr built)
        obtain tasks audio_files where "built = (tasks, audio_files)" by (cases built)
        with Inr turns lines same show ?thesis
          by (simp add: generate_audio_parallel_def)
      qed
    qed
  qed
qed

lemma merge_audio_files_frame:
  assumes "merge_audio_files e audio_files output_file w = (r, w')"
  shows "trace w' = trace w \<and> bucket w' = bucket w
         \<and> (r = Inr () \<longrightarrow> (\<exists>bytes. files w' = (files w)(output_file \<mapsto> bytes)))
         \<and> (isl r \<longrightarrow> w' = w)"
  using assms
  by (auto simp: merge_audio_files_def save_to_file_def split: sum.splits)

lemma remove_files_frame:
  assumes "remove_files audio_files w = (r, w')"
  shows "trace w' = trace w \<and> bucket w' = bucket w
         \<and> (\<forall>name. name \<notin> set audio_files \<longrightarrow> files w' name = files w name)"
  using assms
proof (induction audio_files arbitrary: w)
  case Nil
  then show ?case by simp
next
  case (Cons name audio_files)
  show ?case
  proof (cases "files w name")
    case None
    with Cons.prems show ?thesis by simp
  next
    case (Some bytes)
    with Cons.prems have "remove_files audio_files (w\<lparr>files := (files w)(name := None)\<rparr>) = (r, w')"
      by simp
    from Cons.IH [OF this] show ?thesis by auto
  qed
qed

lemma generate_audio_parallel_built:
  assumes "generate_audio_parallel e conversation w = (Inr audio_files, w')"
  shows "\<exists>turns lines tasks. py_getitem conversation ''conversation'' = Inr turns
           \<and> py_iter turns = Inr lines \<and> audio_loop 0 lines [] [] = Inr (tasks, audio_files)"
  using assms
  by (auto simp: generate_audio_parallel_def split: sum.splits prod.splits)

lemma audio_loop_dialogue:
  assumes "audio_loop i lines tasks audio_files = Inr built"
  shows "\<exists>spoken. list_all2 (\<lambda>item (speaker, text). dialogue_line item speaker text) lines spoken"
  using assms
proof (induction lines arbitrary: i tasks audio_files)
  case Nil
  then show ?case by simp
next
  case (Cons item lines)
  from Cons.prems obtain said speaker where
    line: "py_getitem item ''text'' = Inr said" "py_getitem item ''speaker'' = Inr speaker"
    and rest: "audio_loop (Suc i) lines (tasks @ [(said, select_voice speaker, clip_name i)])
        (audio_files @ [clip_name i]) = Inr built"
    by (auto simp: Let_def clip_name_def split: sum.splits)
  from Cons.IH [OF rest] obtain spoken where
    "list_all2 (\<lambda>item (speaker, text). dialogue_line item speaker text) lines spoken"
    by blast
  with line have "list_all2 (\<lambda>item (speaker, text). dialogue_line item speaker text)
                    (item # lines) ((speaker, said) # spoken)"
    by (simp add: dialogue_line_def)
  then show ?case by blast
qed

lemma merge_loop_clips:
  assumes "merge_loop e fs names combined = Inr track"
  shows "\<exists>clips. list_all2 (readable_clip e fs) names clips \<and> track = combined @ concat clips"
  using assms
proof (induction names arbitrary: combined)
  case Nil
  then show ?case by simp
next
  case (Cons name names)
  from Cons.prems obtain bytes clip where
    head: "fs name = Some bytes" "from_file e bytes = Inr clip"
    and rest: "merge_loop e fs names (combined @ clip) = Inr track"
    by (auto split: option.splits sum.splits)
  from Cons.IH [OF rest] obtain clips where
    "list_all2 (readable_clip e fs) names clips" "track = (combined @ clip) @ concat clips"
    by blast
  with head have "list_all2 (readable_clip e fs) (name # names) (clip # clips)
      \<and> track = combined @ concat (clip # clips)"
    by (simp add: readable_clip_def)
  then show ?case by blast
qed

lemma merge_audio_files_success:
  assumes "merge_audio_files e audio_files output_file w = (Inr u, w')"
  shows "\<exists>track episode. merge_loop e (files w) audio_files [] = Inr track
           \<and> export e track = Inr episode \<and> files w' = (files w)(output_file \<mapsto> episode)"
  using assms
  by (auto simp: merge_audio_files_def save_to_file_def split: sum.splits)

lemma those_map_Some: "those (map Some xs) = Some xs"
  by (induction xs) simp_all

lemma episode_as_expected:
  assumes audio: "generate_audio_parallel e conversation w = (Inr audio_files, w4)"
    and track: "merge_loop e (files w4) audio_files [] = Inr track"
    and episode: "export e track = Inr episode"
  shows "expected_episode e conversation = Some episode"
proof -
  from generate_audio_parallel_built [OF audio] obtain turns lines tasks where
    conv: "py_getitem conversation ''conversation'' = Inr turns" "py_iter turns = Inr lines"
    and loop: "audio_loop 0 lines [] [] = Inr (tasks, audio_files)"
    by blast
  from audio_loop_dialogue [OF loop] obtain spoken where
    lines: "list_all2 (\<lambda>item (speaker, text). dialogue_line item speaker text) lines spoken"
    by blast
  from generate_audio_parallel_success [OF conv lines audio]
  have names: "audio_files = map clip_name [0..<length lines]"
    and saved: "\<forall>i < length lines. \<exists>bytes.
               tts_save e i (snd (spoken ! i)) (select_voice (fst (spoken ! i))) = Inr bytes
               \<and> files w4 (audio_files ! i) = Some bytes"
    by blast+
  from merge_loop_clips [OF track] obtain clips where
    clips: "list_all2 (readable_clip e (files w4)) audio_files clips" and joined: "track = concat clips"
    by auto
  from clips names have len: "length clips = length lines"
    by (auto dest: list_all2_lengthD)
  have "map (\<lambda>(i, item). spoken_clip e i item) (enumerate 0 lines) = map Some clips"
  proof (rule nth_equalityI)
    show "length (map (\<lambda>(i, item). spoken_clip e i item) (enumerate 0 lines)) = length (map Some clips)"
      using len by simp
  next
    fix i assume "i < length (map (\<lambda>(i, item). spoken_clip e i item) (enumerate 0 lines))"
    then have i: "i < length lines" by simp
    from lines i have "dialogue_line (lines ! i) (fst (spoken ! i)) (snd (spoken ! i))"
      by (auto simp: list_all2_conv_all_nth case_prod_unfold)
    then have line: "py_getitem (lines ! i) ''speaker'' = Inr (fst (spoken ! i))"
      "py_getitem (lines ! i) ''text'' = Inr (snd (spoken ! i))"
      by (simp_all add: dialogue_line_def)
    from saved i obtain bytes where
      bytes: "tts_save e i (snd (spoken ! i)) (select_voice (fst (spoken ! i))) = Inr bytes"
        "files w4 (audio_files ! i) = Some bytes"
      by blast
    from clips i names have "readable_clip e (files w4) (audio_files ! i) (clips ! i)"
      by (auto simp: list_all2_conv_all_nth)
    with bytes have "from_file e bytes = Inr (clips ! i)"
      by (simp add: readable_clip_def)
    with line bytes have "spoken_clip e i (lines ! i) = Some (clips ! i)"
      by (simp add: spoken_clip_def)
    with i len show "map (\<lambda>(i, item). spoken_clip e i item) (enumerate 0 lines) ! i = map Some clips ! i"
      by (simp add: nth_enumerate_eq)
  qed
  with conv joined episode show ?thesis
    by (simp add: expected_episode_def those_map_Some)
qed


lemma local_run_outcome:
  assumes names: "\<not> clip_like cf" "\<not> clip_like nf" "\<not> clip_like pf"
      "cf \<noteq> nf" "pf \<noteq> cf" "pf \<noteq> nf" "LAST_RUN_FILE \<notin> {cf, nf, pf}"
    and ext: "files w1 = files w"
    and run: "local_run e (re, w1) cf nf pf = (r, w')"
  shows "trace w' = trace w1 \<and> bucket w' = bucket w1
         \<and> (isl r \<and> files w' LAST_RUN_FILE = files w LAST_RUN_FILE
            \<or> r = Inr () \<and> files w' LAST_RUN_FILE = Some (today_at_end e)
              \<and> (\<exists>conversation episode. re = Inr conversation
                    \<and> expected_episode e conversation = Some episode
                    \<and> files w' cf = Some (json_dumps e conversation)
                    \<and> files w' nf = Some (generate_show_notes (items e))
                    \<and> files w' pf = Some episode))"
proof (cases re)
  case (Inl x)
  with run ext show ?thesis by (auto simp: local_run_def)
next
  case (Inr conversation)
  define w3 where "w3 = save_to_file (generate_show_notes (items e)) nf
                          (save_to_file (json_dumps e conversation) cf w1)"
  have w3: "trace w3 = trace w1" "bucket w3 = bucket w1"
    "files w3 LAST_RUN_FILE = files w LAST_RUN_FILE"
    "files w3 cf = Some (json_dumps e conversation)"
    "files w3 nf = Some (generate_show_notes (items e))"
    using names ext by (auto simp: w3_def save_to_file_def)
  have not_clip: "\<not> clip_like LAST_RUN_FILE"
    by (simp add: clip_like_def LAST_RUN_FILE_def)
  obtain ra w4 where audio: "generate_audio_parallel e conversation w3 = (ra, w4)"
    by (cases "generate_audio_parallel e conversation w3")
  from generate_audio_parallel_frame [OF audio] have w4: "trace w4 = trace w3" "bucket w4 = bucket w3"
    "\<forall>name. \<not> clip_like name \<longrightarrow> files w4 name = files w3 name"
    "\<forall>audio_files. ra = Inr audio_files \<longrightarrow> (\<forall>name \<in> set audio_files. clip_like name)"
    by blast+
  show ?thesis
  proof (cases ra)
    case (Inl x)
    with run Inr audio have "r = Inl x" "w' = w4"
      by (simp_all add: local_run_def w3_def Let_def)
    with w3 w4 not_clip show ?thesis by simp
  next
    case audio_ok: (Inr audio_files)
    with w4 have clips: "\<forall>name \<in> set audio_files. clip_like name" by blast
    obtain rm w5 where merged: "merge_audio_files e audio_files pf w4 = (rm, w5)"
      by (cases "merge_audio_files e audio_files pf w4")
    note w5 = merge_audio_files_frame [OF merged]
    show ?thesis
    proof (cases rm)
      case (Inl x)
      with run Inr audio audio_ok merged have "r = Inl x" "w' = w5"
        by (simp_all add: local_run_def w3_def Let_def)
      moreover from Inl w5 have "w5 = w4" by simp
      ultimately show ?thesis using w3 w4 not_clip by simp
    next
      case merge_ok: (Inr u)
      with merged have "merge_audio_files e audio_files pf w4 = (Inr u, w5)" by simp
      from merge_audio_files_success [OF this] obtain track episode where
        track: "merge_loop e (files w4) audio_files [] = Inr track"
        and episode: "export e track = Inr episode"
        and w5_files: "files w5 = (files w4)(pf \<mapsto> episode)"
        by blast
      from audio audio_ok have "generate_audio_parallel e conversation w3 = (Inr audio_files, w4)"
        by simp
      from episode_as_expected [OF this track episode]
      have expected: "expected_episode e conversation = Some episode" .
      obtain rr w6 where removed: "remove_files audio_files w5 = (rr, w6)"
        by (cases "remove_files audio_files w5")
      from remove_files_frame [OF removed] clips have w6: "trace w6 = trace w5" "bucket w6 = bucket w5"
        "\<forall>name. \<not> clip_like name \<longrightarrow> files w6 name = files w5 name"
        by auto
      show ?thesis
      proof (cases rr)
        case (Inl x)
        with run Inr audio audio_ok merged merge_ok removed have "r = Inl x" "w' = w6"
          by (simp_all add: local_run_def w3_def Let_def)
        with w3 w4 w5 w5_files w6 not_clip names show ?thesis by simp
      next
        case remove_ok: (Inr u')
        with run Inr audio audio_ok merged merge_ok removed
        have "r = Inr ()" "w' = save_to_file (today_at_end e) LAST_RUN_FILE w6"
          by (simp_all add: local_run_def w3_def Let_def)
        with Inr w3 w4 w5 w5_files w6 names expected show ?thesis
          by (auto simp: save_to_file_def)
      qed
    qed
  qed
qed


lemma artifact_names:
  "\<not> clip_like CONVERSATION_FILE" "\<not> clip_like SHOW_NOTES_FILE" "\<not> clip_like PODCAST_FILE"
  "CONVERSATION_FILE \<noteq> SHOW_NOTES_FILE" "PODCAST_FILE \<noteq> CONVERSATION_FILE"
  "PODCAST_FILE \<noteq> SHOW_NOTES_FILE"
  "LAST_RUN_FILE \<notin> {CONVERSATION_FILE, SHOW_NOTES_FILE, PODCAST_FILE}"
  by (simp_all add: clip_like_def CONVERSATION_FILE_def SHOW_NOTES_FILE_def PODCAST_FILE_def
      LAST_RUN_FILE_def)


lemma local_run_synthesis_failure:
  assumes names: "\<not> clip_like cf" "\<not> clip_like nf" "\<not> clip_like pf"
      "cf \<noteq> nf" "pf \<noteq> cf" "pf \<noteq> nf" "LAST_RUN_FILE \<notin> {cf, nf, pf}"
    and ext: "files w1 = files w"
    and fail: "fst (generate_audio_parallel e conversation w0) = Inl x"
  shows "\<exists>w'. local_run e (Inr conversation, w1) cf nf pf = (Inl x, w')
           \<and> files w' cf = Some (json_dumps e conversation)
           \<and> files w' nf = Some (generate_show_notes (items e))
           \<and> files w' pf = files w pf
           \<and> files w' LAST_RUN_FILE = files w LAST_RUN_FILE"
proof -
  define w3 where "w3 = save_to_file (generate_show_notes (items e)) nf
                          (save_to_file (json_dumps e conversation) cf w1)"
  have w3: "files w3 LAST_RUN_FILE = files w LAST_RUN_FILE"
    "files w3 cf = Some (json_dumps e conversation)"
    "files w3 nf = Some (generate_show_notes (items e))"
    "files w3 pf = files w pf"
    using names ext by (auto simp: w3_def save_to_file_def)
  have not_clip: "\<not> clip_like LAST_RUN_FILE"
    by (simp add: clip_like_def LAST_RUN_FILE_def)
  from fail have "fst (generate_audio_parallel e conversation w3) = Inl x"
    using generate_audio_parallel_outcome [of e conversation w3 w0] by simp
  then obtain w4 where audio: "generate_audio_parallel e conversation w3 = (Inl x, w4)"
    by (cases "generate_audio_parallel e conversation w3") simp
  from generate_audio_parallel_frame [OF audio]
  have kept: "\<forall>name. \<not> clip_like name \<longrightarrow> files w4 name = files w3 name"
    by blast
  have "local_run e (Inr conversation, w1) cf nf pf = (Inl x, w4)"
    using audio by (simp add: local_run_def w3_def Let_def)
  with kept w3 names not_clip show ?thesis by simp
qed


lemma generate_podcast_skip:
  "already_generated e w \<Longrightarrow> generate_podcast e w = (Inr (), w)"
  by (simp add: generate_podcast_def)


lemma generate_podcast_outcome:
  assumes "\<not> already_generated e w" and "generate_podcast e w = (r, w')"
  shows "(\<exists>evs. trace w' = trace w @ Completion 1 (build_prompt (daily_feed e) (items e)) # evs)
         \<and> (isl r \<and> files w' LAST_RUN_FILE = files w LAST_RUN_FILE
            \<or> r = Inr () \<and> files w' LAST_RUN_FILE = Some (today_at_end e)
              \<and> (\<exists>conversation episode.
                    fst (extract_conversation e (daily_feed e) (items e) 3 w) = Inr conversation
                    \<and> expected_episode e conversation = Some episode
                    \<and> files w' CONVERSATION_FILE = Some (json_dumps e conversation)
                    \<and> files w' SHOW_NOTES_FILE = Some (generate_show_notes (items e))
                    \<and> files w' PODCAST_FILE = Some episode))"
proof -
  obtain re w1 where ext: "extract_conversation e (daily_feed e) (items e) 3 w = (re, w1)"
    by (cases "extract_conversation e (daily_feed e) (items e) 3 w")
  from extract_conversation_frame [OF ext] have same: "files w1 = files w" by simp
  from assms ext have run: "local_run e (re, w1) CONVERSATION_FILE SHOW_NOTES_FILE PODCAST_FILE = (r, w')"
    by (simp add: generate_podcast_def generation_cycle_local)
  from local_run_outcome [OF artifact_names same run] extract_conversation_requests [OF ext] ext
  show ?thesis by auto
qed


lemma generate_podcast_then_fresh:
  assumes "generate_podcast e w = (Inr (), w1)"
    and "today_at_gate e = d" "today_at_end e = d" "today_at_gate e2 = d" "py_strip d = d"
  shows "already_generated e2 w1"
proof (cases "already_generated e w")
  case True
  with assms(1) have "w1 = w" by (simp add: generate_podcast_def)
  with True assms show ?thesis
    by (auto simp: already_generated_def split: option.splits)
next
  case False
  from generate_podcast_outcome [OF False assms(1)]
  have "files w1 LAST_RUN_FILE = Some (today_at_end e)" by auto
  with assms show ?thesis by (simp add: already_generated_def)
qed




lemma stale_gate:
  "\<not> already_generated sample_env yesterday_world"
  "\<not> already_generated broken_tts_env yesterday_world"
  by (simp_all add: already_generated_def yesterday_world_def LAST_RUN_FILE_def PODCAST_FILE_def
      SHOW_NOTES_FILE_def CONVERSATION_FILE_def sample_env_def broken_tts_env_def py_strip_def
      strip_front.simps space_at_def unicode_spaces_def)

lemma fresh_gate: "already_generated sample_env today_world"
  by (simp add: already_generated_def today_world_def LAST_RUN_FILE_def PODCAST_FILE_def
      SHOW_NOTES_FILE_def CONVERSATION_FILE_def sample_env_def py_strip_def strip_front.simps space_at_def unicode_spaces_def)

lemma broken_extract:
  "extract_conversation broken_tts_env (daily_feed broken_tts_env) (items broken_tts_env) 3
     yesterday_world
   = (Inr sample_conversation,
      yesterday_world\<lparr>trace := [Completion 1 (build_prompt (daily_feed sample_env) sample_items)]\<rparr>)"
proof -
  have range: "[1..3::int] = [1, 2, 3]" by (simp add: upto_rec1)
  show ?thesis
    by (simp add: extract_conversation_def range attempt_body_def Let_def broken_tts_env_def
        sample_env_def sample_search sample_loads_def yesterday_world_def)
qed

lemma broken_audio:
  "fst (generate_audio_parallel broken_tts_env sample_conversation yesterday_world)
     = Inl SynthesisError"
  by (simp add: generate_audio_parallel_def sample_conversation_def gather_def Let_def
      broken_tts_env_def sample_env_def str_nat.simps select_voice_def)

lemma broken_run:
  "generate_podcast broken_tts_env yesterday_world =
     (Inl SynthesisError,
      \<lparr>files = [PODCAST_FILE \<mapsto> ''old episode'', LAST_RUN_FILE \<mapsto> ''2026-11-02'',
                CONVERSATION_FILE \<mapsto> sample_object,
                SHOW_NOTES_FILE \<mapsto> generate_show_notes sample_items,
                ''audio_0.mp3'' \<mapsto> ''en-GB''],
       trace = [Completion 1 (build_prompt (daily_feed sample_env) sample_items)],
       bucket = Map.empty\<rparr>)"
  unfolding generate_podcast_def generation_cycle_def
  using stale_gate(2)
  apply (simp only: if_False broken_extract prod.case sum.case Let_def)
  apply (simp add: generate_audio_parallel_def sample_conversation_def gather_def
      save_to_file_def yesterday_world_def str_nat.simps Let_def
      LAST_RUN_FILE_def PODCAST_FILE_def SHOW_NOTES_FILE_def CONVERSATION_FILE_def
      broken_tts_env_def sample_env_def select_voice_def)
  done






section \<open>Run gate and persistence: the claims\<close>

text \<open>
  C2, as the code has it. If the run is not skipped, the conversation is extracted and the
  synthesizer then fails (a line's speech synthesis raises, or the conversation is
  malformed), \<open>generate_podcast\<close> stops with that exception; the episode file and the run
  marker are as they were before the run, while the conversation file and the show notes
  already hold the content of this run, which was written before the synthesis started.
\<close>

theorem synthesis_failure_state:
  assumes "\<not> already_generated e w"
    and "extract_conversation e (daily_feed e) (items e) 3 w = (Inr conversation, w1)"
    and "fst (generate_audio_parallel e conversation w) = Inl x"
  shows "\<exists>w'. generate_podcast e w = (Inl x, w')
           \<and> files w' PODCAST_FILE = files w PODCAST_FILE
           \<and> files w' LAST_RUN_FILE = files w LAST_RUN_FILE
           \<and> files w' CONVERSATION_FILE = Some (json_dumps e conversation)
           \<and> files w' SHOW_NOTES_FILE = Some (generate_show_notes (items e))"
proof -
  from extract_conversation_frame [OF assms(2)] have same: "files w1 = files w" by simp
  from local_run_synthesis_failure [OF artifact_names same assms(3)] assms(1,2)
  show ?thesis
    by (auto simp: generate_podcast_def generation_cycle_local)
qed

theorem synthesis_failure_state_witness:
  "fst (generate_podcast broken_tts_env yesterday_world) = Inl SynthesisError
   \<and> files (snd (generate_podcast broken_tts_env yesterday_world)) PODCAST_FILE = Some ''old episode''
   \<and> files (snd (generate_podcast broken_tts_env yesterday_world)) LAST_RUN_FILE = Some ''2026-11-02''
   \<and> files (snd (generate_podcast broken_tts_env yesterday_world)) CONVERSATION_FILE
       = Some (json_dumps broken_tts_env sample_conversation)
   \<and> files (snd (generate_podcast broken_tts_env yesterday_world)) SHOW_NOTES_FILE
       = Some (generate_show_notes (items broken_tts_env))"
proof -
  have old: "files yesterday_world PODCAST_FILE = Some ''old episode''"
    "files yesterday_world LAST_RUN_FILE = Some ''2026-11-02''"
    by (simp_all add: yesterday_world_def LAST_RUN_FILE_def PODCAST_FILE_def SHOW_NOTES_FILE_def
        CONVERSATION_FILE_def)
  from synthesis_failure_state [OF stale_gate(2) broken_extract broken_audio] old show ?thesis
    by auto
qed

text \<open>
  The claim as stated fails on a run over yesterday's artifacts in which the second line
  cannot be synthesized: the run ends with the synthesis error, yet the conversation file
  no longer holds yesterday's conversation, and the part of the first clip that its task
  had written is on disk.
\<close>

theorem synthesis_failure_overwrites_conversation:
  "fst (generate_podcast broken_tts_env yesterday_world) = Inl SynthesisError
   \<and> files yesterday_world CONVERSATION_FILE = Some ''old conversation''
   \<and> files (snd (generate_podcast broken_tts_env yesterday_world)) CONVERSATION_FILE
       = Some sample_object
   \<and> sample_object \<noteq> ''old conversation''
   \<and> files yesterday_world ''audio_0.mp3'' = None
   \<and> files (snd (generate_podcast broken_tts_env yesterday_world)) ''audio_0.mp3'' = Some ''en-GB''"
  by (simp add: broken_run)
     (simp add: yesterday_world_def LAST_RUN_FILE_def PODCAST_FILE_def SHOW_NOTES_FILE_def
        CONVERSATION_FILE_def sample_object_def)





section \<open>The force button\<close>

text \<open>
  C1 says that a forced invocation regenerates whatever the marker holds. The code does
  otherwise: the handler of the button calls \<open>generate_podcast\<close>, whose gate it cannot
  bypass. If the marker holds today's date, the forced call returns at once and leaves the
  world as it was. Within one run of the page script the handler comes after the
  module-level call, so on an unchanged date a click adds nothing to what loading the page
  did.
\<close>

theorem force_generate_is_gated:
  "(already_generated e w \<longrightarrow> force_generate e w = (Inr (), w))
   \<and> (today_at_gate e = d \<and> today_at_end e = d \<and> today_at_gate e2 = d \<and> py_strip d = d \<longrightarrow>
        app_script e e2 True w = generate_podcast e w)"
proof (intro conjI impI; (elim conjE)?)
  show "force_generate e w = (Inr (), w)" if "already_generated e w"
    using that by (simp add: force_generate_def generate_podcast_skip)
next
  assume day: "today_at_gate e = d" "today_at_end e = d" "today_at_gate e2 = d" "py_strip d = d"
  obtain r w1 where first: "generate_podcast e w = (r, w1)"
    by (cases "generate_podcast e w")
  show "app_script e e2 True w = generate_podcast e w"
  proof (cases r)
    case (Inl x)
    with first show ?thesis by (simp add: app_script_def)
  next
    case (Inr u)
    with first have "generate_podcast e w = (Inr (), w1)" by simp
    then have "already_generated e2 w1"
      using day by (rule generate_podcast_then_fresh)
    then have "force_generate e2 w1 = (Inr (), w1)"
      by (simp add: force_generate_def generate_podcast_skip)
    with first Inr show ?thesis by (simp add: app_script_def)
  qed
qed

theorem force_generate_is_gated_witness:
  "force_generate sample_env today_world = (Inr (), today_world)
   \<and> files today_world PODCAST_FILE = Some ''old episode''
   \<and> trace today_world = []
   \<and> app_script sample_env sample_env True yesterday_world
       = generate_podcast sample_env yesterday_world"
proof -
  have day: "today_at_gate sample_env = ''2026-11-03''" "today_at_end sample_env = ''2026-11-03''"
    "py_strip ''2026-11-03'' = ''2026-11-03''"
    by (simp_all add: sample_env_def py_strip_def strip_front.simps space_at_def unicode_spaces_def)
  have old: "files today_world PODCAST_FILE = Some ''old episode''" "trace today_world = []"
    by (simp_all add: today_world_def LAST_RUN_FILE_def PODCAST_FILE_def SHOW_NOTES_FILE_def
        CONVERSATION_FILE_def)
  from force_generate_is_gated [of sample_env today_world "''2026-11-03''" sample_env] fresh_gate
  have "force_generate sample_env today_world = (Inr (), today_world)"
    by blast
  moreover
  from force_generate_is_gated [of sample_env yesterday_world "''2026-11-03''" sample_env] day
  have "app_script sample_env sample_env True yesterday_world
       = generate_podcast sample_env yesterday_world"
    by blast
  ultimately show ?thesis using old by blast
qed

end
